theory Spec2Isabelle
  imports Complex_Main "HOL-Library.AList" "HOL-Library.Word"
begin

section \<open>Runtime values shared by the modules\<close>

text \<open>
  A connection handle (a \<open>ws\<close> socket object) is an opaque identity. JavaScript strings are
  sequences of UTF-16 code units: \<open>length\<close> and \<open>slice\<close> count code units. Timestamps are
  the integer milliseconds of \<open>Date.now()\<close>.
\<close>

type_synonym socket = nat
type_synonym js_string = "16 word list"

definition js :: "string \<Rightarrow> js_string" where
  "js s = map (\<lambda>c. of_nat (of_char c)) s"

datatype ready_state = CONNECTING | OPEN | CLOSING | CLOSED

text \<open>
  What the transport does when the program calls into it: the ready state of each socket and
  whether \<open>ping\<close> and \<open>send\<close> throw for it. Every such call of the source stands in
  a \<open>try\<close> block whose handler logs an error; an exception of \<open>terminate\<close> is swallowed
  without a trace, so it needs no field.
\<close>

record world =
  readyState :: "socket \<Rightarrow> ready_state"
  ping_throws :: "socket \<Rightarrow> bool"
  send_throws :: "socket \<Rightarrow> bool"

datatype proto = WS | WSS

datatype signal = SIGINT | SIGTERM

text \<open>
  The log lines of the source are template strings; a log record names the template and keeps
  the values interpolated into it (the text of a caught exception is left out).
\<close>

datatype log_record =
    ZombieCleaned js_string int
  | HeartbeatSendFailed js_string
  | ForwardFailed
  | BroadcastSummary js_string nat nat js_string
  | PongReplyFailed js_string
  | ClientConnected proto js_string nat
  | ClientDisconnected proto js_string nat
  | ClientError proto js_string
  | ServiceStarted proto js_string nat
  | LoopbackAlsoListening proto nat
  | PrimaryListenerFailed proto js_string nat
  | LoopbackListenerFailed proto nat
  | TlsReadFailed
  | StartingUp
  | LogFileIs
  | ProtocolsEnabled bool bool
  | MaxPayloadIs int
  | SignalReceived signal
  | GroupClosed proto
  | ServerStopped
  | ForcedExit

text \<open>
  The trace of a handler: the calls it makes on sockets and on the logger, in order. An event
  \<open>Send c d\<close> is the call \<open>c.send(d)\<close>; when the call throws, the error record logged by
  the \<open>catch\<close> block follows it.
\<close>

datatype event =
    Ping socket
  | Terminate socket
  | Send socket js_string
  | LogInfo log_record
  | LogWarn log_record
  | LogError log_record

section \<open>Heartbeat manager: src/heartbeat.js\<close>

record entry =
  isAlive :: bool
  lastPingSentAt :: int
  ip :: js_string

record hb_config =
  interval :: int
  timeout :: int

text \<open>
  \<open>clientMap\<close> is a JavaScript \<open>Map\<close>: an association list in insertion order whose keys
  are distinct. \<open>timer\<close> tells whether the interval handle is set. The options \<open>interval\<close>
  and \<open>timeout\<close>, fixed when the manager is created, are handed to the functions that read
  them.
\<close>

record heartbeat =
  clientMap :: "(socket \<times> entry) list"
  timer :: bool

definition createHeartbeatManager :: heartbeat where
  "createHeartbeatManager = \<lparr>clientMap = [], timer = False\<rparr>"

definition register :: "socket \<Rightarrow> js_string \<Rightarrow> int \<Rightarrow> heartbeat \<Rightarrow> heartbeat" where
  "register s addr now hb =
     hb\<lparr>clientMap :=
          AList.update s \<lparr>isAlive = True, lastPingSentAt = now, ip = addr\<rparr> (clientMap hb)\<rparr>"

text \<open>The \<open>pong\<close> listener that \<open>register\<close> attaches to the socket.\<close>

definition on_pong :: "socket \<Rightarrow> heartbeat \<Rightarrow> heartbeat" where
  "on_pong s hb =
     (case map_of (clientMap hb) s of
        None \<Rightarrow> hb
      | Some e \<Rightarrow> hb\<lparr>clientMap := AList.update s (e\<lparr>isAlive := True\<rparr>) (clientMap hb)\<rparr>)"

definition unregister :: "socket \<Rightarrow> heartbeat \<Rightarrow> heartbeat" where
  "unregister s hb = hb\<lparr>clientMap := AList.delete s (clientMap hb)\<rparr>"

definition markAlive :: "socket \<Rightarrow> heartbeat \<Rightarrow> heartbeat" where
  "markAlive s hb =
     (case map_of (clientMap hb) s of
        None \<Rightarrow> hb
      | Some e \<Rightarrow> hb\<lparr>clientMap := AList.update s (e\<lparr>isAlive := True\<rparr>) (clientMap hb)\<rparr>)"

definition start :: "heartbeat \<Rightarrow> heartbeat" where
  "start hb = (if timer hb then hb else hb\<lparr>timer := True\<rparr>)"

definition stop :: "heartbeat \<Rightarrow> heartbeat" where
  "stop hb = hb\<lparr>timer := False, clientMap := []\<rparr>"

text \<open>\<open>Math.round\<close> of a quotient by 1000: the nearest integer, halves upwards.\<close>

definition round_seconds :: "int \<Rightarrow> int" where
  "round_seconds ms = (ms + 500) div 1000"

definition is_zombie :: "hb_config \<Rightarrow> int \<Rightarrow> entry \<Rightarrow> bool" where
  "is_zombie cfg now e = (\<not> isAlive e \<and> now - lastPingSentAt e \<ge> timeout cfg)"

definition send_ping :: "world \<Rightarrow> socket \<Rightarrow> entry \<Rightarrow> event list" where
  "send_ping w s e =
     (if readyState w s = OPEN
      then (if ping_throws w s then [Ping s, LogError (HeartbeatSendFailed (ip e))] else [Ping s])
      else [])"

text \<open>
  The body of the interval callback: one pass of \<open>clientMap.forEach\<close>. A zombie is deleted
  from the map, a warning is logged and the socket is terminated; any other entry is marked
  not alive, stamped with \<open>now\<close> and pinged when its socket is open.
\<close>

fun sweep :: "hb_config \<Rightarrow> world \<Rightarrow> int \<Rightarrow> (socket \<times> entry) list
    \<Rightarrow> (socket \<times> entry) list \<times> event list" where
  "sweep cfg w now [] = ([], [])"
| "sweep cfg w now ((s, e) # rest) =
     (let (rest', evs) = sweep cfg w now rest in
      if is_zombie cfg now e
      then (rest',
            [LogWarn (ZombieCleaned (ip e) (round_seconds (now - lastPingSentAt e))), Terminate s]
              @ evs)
      else ((s, e\<lparr>isAlive := False, lastPingSentAt := now\<rparr>) # rest', send_ping w s e @ evs))"

definition heartbeat_tick :: "hb_config \<Rightarrow> world \<Rightarrow> int \<Rightarrow> heartbeat \<Rightarrow> heartbeat \<times> event list" where
  "heartbeat_tick cfg w now hb =
     (let (m, evs) = sweep cfg w now (clientMap hb) in (hb\<lparr>clientMap := m\<rparr>, evs))"

text \<open>
  The interval timer of \<open>start\<close>: while the handle is set, the runtime runs the callback
  again and again. \<open>fire_timer cfg w now\<close> is one run, at which \<open>Date.now()\<close> gives \<open>now\<close>.
\<close>

definition fire_timer :: "hb_config \<Rightarrow> world \<Rightarrow> int \<Rightarrow> heartbeat \<Rightarrow> heartbeat \<times> event list" where
  "fire_timer cfg w now hb = (if timer hb then heartbeat_tick cfg w now hb else (hb, []))"

text \<open>
  The time of the firing that evicts socket \<open>s\<close> (deletes it from the map and terminates it)
  among the firings at the times \<open>ts\<close>, which the runtime chooses; \<open>None\<close> when none of them
  does.
\<close>

fun evicted_at :: "hb_config \<Rightarrow> world \<Rightarrow> int list \<Rightarrow> heartbeat \<Rightarrow> socket \<Rightarrow> int option" where
  "evicted_at cfg w [] hb s = None"
| "evicted_at cfg w (t # ts) hb s =
     (let (hb', evs) = fire_timer cfg w t hb in
      if map_of (clientMap hb') s = None \<and> Terminate s \<in> set evs then Some t
      else evicted_at cfg w ts hb' s)"

text \<open>
  What \<open>setInterval\<close> of Node makes of its delay argument: a delay below 1 or above
  \<open>2\<^sup>3\<^sup>1 - 1\<close> milliseconds is taken as 1 millisecond. A timer fires on schedule when
  each firing comes one such delay after the one before; a busy event loop delays firings,
  so that nothing in the program holds the times to the schedule.
\<close>

definition timer_delay :: "hb_config \<Rightarrow> int" where
  "timer_delay cfg =
     (if 1 \<le> interval cfg \<and> interval cfg \<le> 2147483647 then interval cfg else 1)"

fun on_schedule :: "hb_config \<Rightarrow> int \<Rightarrow> nat \<Rightarrow> int list" where
  "on_schedule cfg t 0 = []"
| "on_schedule cfg t (Suc n) = t # on_schedule cfg (t + timer_delay cfg) n"

text \<open>Each of the times \<open>ts\<close> comes less than \<open>d\<close> after the one before, the first after \<open>t\<close>.\<close>

fun gaps_below :: "int \<Rightarrow> int \<Rightarrow> int list \<Rightarrow> bool" where
  "gaps_below d t [] = True"
| "gaps_below d t (t' # ts) = (t' - t < d \<and> gaps_below d t' ts)"

section \<open>Decoded messages\<close>

text \<open>
  The values \<open>JSON.parse\<close> returns. An object keeps its own properties in creation order,
  with distinct keys. Numbers are IEEE doubles in the source; the program only tests them
  for zero (truthiness), so they are reals here.
\<close>

datatype json =
    JNull
  | JBool bool
  | JNum real
  | JStr js_string
  | JArr "json list"
  | JObj "(js_string \<times> json) list"

text \<open>
  The built-ins of the JavaScript runtime the handlers call: \<open>Buffer.toString('utf8')\<close>,
  \<open>JSON.parse\<close> (\<open>None\<close> when it throws a \<open>SyntaxError\<close>) and \<open>JSON.stringify\<close>.
\<close>

record runtime =
  toString_utf8 :: "8 word list \<Rightarrow> js_string"
  JSON_parse :: "js_string \<Rightarrow> json option"
  JSON_stringify :: "json \<Rightarrow> js_string"

text \<open>JavaScript truthiness of a decoded value, as \<open>parsed && ...\<close> tests it.\<close>

fun truthy :: "json \<Rightarrow> bool" where
  "truthy JNull = False"
| "truthy (JBool b) = b"
| "truthy (JNum x) = (x \<noteq> 0)"
| "truthy (JStr s) = (s \<noteq> [])"
| "truthy (JArr xs) = True"
| "truthy (JObj kvs) = True"

text \<open>
  The property read \<open>parsed.type\<close>: the value of the own property \<open>type\<close> of an object,
  \<open>undefined\<close> (here \<open>None\<close>) on every other truthy value.
\<close>

fun type_member :: "json \<Rightarrow> json option" where
  "type_member (JObj kvs) = map_of kvs (js ''type'')"
| "type_member v = None"

section \<open>Text of a payload: \<open>Buffer.toString('utf8')\<close>\<close>













section \<open>Broadcast relay: src/broadcast.js\<close>

definition truncation_marker :: js_string where
  "truncation_marker = [0x2026, 0x2026, 0xFF08, 0x5DF2, 0x622A, 0x65AD, 0xFF09]"

definition outgoing_of :: "runtime \<Rightarrow> 8 word list \<Rightarrow> js_string" where
  "outgoing_of rt rawData =
     (let rawStr = toString_utf8 rt rawData in
      case JSON_parse rt rawStr of
        Some parsed \<Rightarrow> JSON_stringify rt parsed
      | None \<Rightarrow> rawStr)"

text \<open>
  The second \<open>clients.forEach\<close>: the sender and every client that is not open are skipped;
  \<open>sentCount\<close> counts the sends that did not throw.
\<close>

fun forward :: "world \<Rightarrow> socket \<Rightarrow> js_string \<Rightarrow> socket list \<Rightarrow> nat \<times> event list" where
  "forward w sender outgoing [] = (0, [])"
| "forward w sender outgoing (client # cs) =
     (let (sentCount, evs) = forward w sender outgoing cs in
      if client = sender then (sentCount, evs)
      else if readyState w client \<noteq> OPEN then (sentCount, evs)
      else if send_throws w client
        then (sentCount, Send client outgoing # LogError ForwardFailed # evs)
        else (Suc sentCount, Send client outgoing # evs))"

definition preview_of :: "js_string \<Rightarrow> js_string" where
  "preview_of outgoing =
     (if length outgoing > 200 then take 200 outgoing @ truncation_marker else outgoing)"

definition broadcast :: "runtime \<Rightarrow> world \<Rightarrow> socket \<Rightarrow> js_string \<Rightarrow> 8 word list
    \<Rightarrow> socket list \<Rightarrow> event list" where
  "broadcast rt w sender senderIp rawData clients =
     (let outgoing = outgoing_of rt rawData;
          totalOnline = length (filter (\<lambda>client. readyState w client = OPEN) clients);
          (sentCount, evs) = forward w sender outgoing clients
      in evs @ [LogInfo (BroadcastSummary senderIp sentCount totalOnline (preview_of outgoing))])"

section \<open>Session handler: attachHandlers in server.js\<close>

definition pong_message :: json where
  "pong_message = JObj [(js ''type'', JStr (js ''pong''))]"

definition ping_message :: json where
  "ping_message = JObj [(js ''type'', JStr (js ''ping''))]"

definition reply_pong :: "runtime \<Rightarrow> world \<Rightarrow> socket \<Rightarrow> js_string \<Rightarrow> event list" where
  "reply_pong rt w s addr =
     (if send_throws w s
      then [Send s (JSON_stringify rt pong_message), LogError (PongReplyFailed addr)]
      else [Send s (JSON_stringify rt pong_message)])"

text \<open>
  \<open>parsed\<close> starts as \<open>null\<close> and keeps that value when \<open>JSON.parse\<close> throws. The test is
  \<open>parsed && parsed.type === 'ping'\<close>.
\<close>

definition decode :: "runtime \<Rightarrow> 8 word list \<Rightarrow> json" where
  "decode rt rawData =
     (case JSON_parse rt (toString_utf8 rt rawData) of None \<Rightarrow> JNull | Some v \<Rightarrow> v)"

definition is_app_ping :: "json \<Rightarrow> bool" where
  "is_app_ping parsed = (truthy parsed \<and> type_member parsed = Some (JStr (js ''ping'')))"

definition on_message :: "runtime \<Rightarrow> world \<Rightarrow> socket \<Rightarrow> js_string \<Rightarrow> 8 word list
    \<Rightarrow> socket list \<Rightarrow> heartbeat \<Rightarrow> heartbeat \<times> event list" where
  "on_message rt w s addr rawData clients hbMgr =
     (if is_app_ping (decode rt rawData)
      then (markAlive s hbMgr, reply_pong rt w s addr)
      else (hbMgr, broadcast rt w s addr rawData clients))"

text \<open>
  The other handlers of a connection. \<open>clients\<close> is \<open>wss.clients\<close>, the set the \<open>ws\<close> library
  keeps: it holds the socket when the \<open>connection\<close> event fires and no longer holds it when
  the \<open>close\<close> event reaches the handler below.
\<close>

definition on_connection :: "proto \<Rightarrow> socket \<Rightarrow> js_string \<Rightarrow> int \<Rightarrow> socket list \<Rightarrow> heartbeat
    \<Rightarrow> heartbeat \<times> event list" where
  "on_connection p s addr now clients hbMgr =
     (register s addr now hbMgr, [LogInfo (ClientConnected p addr (length clients))])"

definition on_close :: "proto \<Rightarrow> socket \<Rightarrow> js_string \<Rightarrow> socket list \<Rightarrow> heartbeat
    \<Rightarrow> heartbeat \<times> event list" where
  "on_close p s addr clients hbMgr =
     (unregister s hbMgr, [LogInfo (ClientDisconnected p addr (length clients))])"

definition on_error :: "proto \<Rightarrow> socket \<Rightarrow> js_string \<Rightarrow> heartbeat \<Rightarrow> heartbeat \<times> event list" where
  "on_error p s addr hbMgr = (unregister s hbMgr, [LogError (ClientError p addr)])"

section \<open>Listener orchestration: server.js\<close>

text \<open>
  An HTTP(S) server made by \<open>serverFactory\<close>: the address it is told to listen on, the
  group whose \<open>WebSocket.Server\<close> \<open>bindUpgrade\<close> hands its upgrade requests to, and whether
  it is the primary listener.
\<close>

record http_server =
  listen_host :: js_string
  listen_port :: nat
  upgrade_to :: proto
  is_primary :: bool

definition needLoopback :: "js_string \<Rightarrow> bool" where
  "needLoopback host =
     (host \<noteq> js ''0.0.0.0'' \<and> host \<noteq> js ''127.0.0.1'' \<and> host \<noteq> js ''::1'')"

definition startListeners :: "js_string \<Rightarrow> nat \<Rightarrow> proto \<Rightarrow> http_server list" where
  "startListeners host port wsServer =
     (let primaryServer =
            \<lparr>listen_host = host, listen_port = port, upgrade_to = wsServer, is_primary = True\<rparr>
      in if needLoopback host
         then [primaryServer,
               \<lparr>listen_host = js ''127.0.0.1'', listen_port = port, upgrade_to = wsServer,
                is_primary = False\<rparr>]
         else [primaryServer])"

text \<open>
  A listener group, as pushed on \<open>servers\<close>: its label, its HTTP servers, the \<open>clients\<close> set
  of its \<open>WebSocket.Server\<close> and its heartbeat manager. \<open>phase\<close> follows the group through
  \<open>gracefulShutdown\<close>: \<open>HttpClosing n\<close> is the local \<open>httpPending = n\<close>, with \<open>n\<close> close
  callbacks of HTTP servers still to come.
\<close>

datatype phase = Serving | WsClosing | HttpClosing nat | Closed

record group =
  label :: proto
  httpServers :: "http_server list"
  wsClients :: "socket list"
  hbMgr :: heartbeat
  phase :: phase

text \<open>
  The process: \<open>exit_code\<close> is the argument of the \<open>process.exit\<close> call that ended it,
  \<open>None\<close> while no such call was made; \<open>pendingCount\<close> is the local of \<open>gracefulShutdown\<close>;
  \<open>force_exit_after\<close> is the delay of its \<open>setTimeout\<close>, once set. \<open>pendingCount\<close> and the
  phases belong to one call of \<open>gracefulShutdown\<close>: the model follows the first signal.
\<close>

record process =
  servers :: "group list"
  exit_code :: "int option"
  pendingCount :: int
  force_exit_after :: "int option"
  trace :: "event list"

record config =
  ws_enabled :: bool
  ws_host :: js_string
  ws_port :: nat
  wss_enabled :: bool
  wss_host :: js_string
  wss_port :: nat
  maxPayload :: int
  heartbeat_cfg :: hb_config

text \<open>
  What the file system answers about the certificate and the key: whether \<open>fs.existsSync\<close>
  finds each when the configuration is loaded, and whether \<open>fs.readFileSync\<close> returns
  for each when the secure group is started.
\<close>

record tls_files =
  cert_exists :: bool
  key_exists :: bool
  cert_readable :: bool
  key_readable :: bool

text \<open>
  The checks of \<open>loadConfig\<close> (src/config.js). \<open>file\<close> is \<open>None\<close> when \<open>config.json\<close> is missing
  or is not JSON, and otherwise holds the values of the fields after the defaults of the
  loader are applied; the result \<open>None\<close> stands for the \<open>Error\<close> the loader throws.
\<close>

definition loadConfig :: "config option \<Rightarrow> tls_files \<Rightarrow> config option" where
  "loadConfig file files =
     (case file of
        None \<Rightarrow> None
      | Some cfg \<Rightarrow>
          if \<not> ws_enabled cfg \<and> \<not> wss_enabled cfg then None
          else if maxPayload cfg \<le> 0 then None
          else if wss_enabled cfg \<and> \<not> cert_exists files then None
          else if wss_enabled cfg \<and> \<not> key_exists files then None
          else Some cfg)"

definition new_group :: "proto \<Rightarrow> js_string \<Rightarrow> nat \<Rightarrow> group" where
  "new_group p host port =
     \<lparr>label = p, httpServers = startListeners host port p, wsClients = [],
      hbMgr = createHeartbeatManager, phase = Serving\<rparr>"

text \<open>
  The two start-up blocks of the module. \<open>tls_readable\<close> tells whether both
  \<open>fs.readFileSync\<close> calls on the certificate and the key return.
\<close>

definition start_ws :: "config \<Rightarrow> process \<Rightarrow> process" where
  "start_ws cfg st =
     (if ws_enabled cfg
      then st\<lparr>servers := servers st @ [new_group WS (ws_host cfg) (ws_port cfg)]\<rparr>
      else st)"

definition start_wss :: "config \<Rightarrow> bool \<Rightarrow> process \<Rightarrow> process" where
  "start_wss cfg tls_readable st =
     (if wss_enabled cfg
      then (if tls_readable
            then st\<lparr>servers := servers st @ [new_group WSS (wss_host cfg) (wss_port cfg)]\<rparr>
            else (let st' = st\<lparr>trace := trace st @ [LogError TlsReadFailed]\<rparr> in
                  if \<not> ws_enabled cfg then st'\<lparr>exit_code := Some 1\<rparr> else st'))
      else st)"

text \<open>
  The module from its first statement: when \<open>loadConfig\<close> throws, a line is written to
  \<open>stderr\<close> and the process exits with status 1; otherwise the logger writes its four
  opening lines and the two blocks run.
\<close>

definition startup :: "config option \<Rightarrow> tls_files \<Rightarrow> process" where
  "startup file files =
     (case loadConfig file files of
        None \<Rightarrow>
          \<lparr>servers = [], exit_code = Some 1, pendingCount = 0, force_exit_after = None,
           trace = []\<rparr>
      | Some cfg \<Rightarrow>
          start_wss cfg (cert_readable files \<and> key_readable files)
            (start_ws cfg
               \<lparr>servers = [], exit_code = None, pendingCount = 0, force_exit_after = None,
                trace = [LogInfo StartingUp, LogInfo LogFileIs,
                         LogInfo (ProtocolsEnabled (ws_enabled cfg) (wss_enabled cfg)),
                         LogInfo (MaxPayloadIs (maxPayload cfg))]\<rparr>))"

text \<open>
  The callbacks \<open>startListeners\<close> installs on a server of group number \<open>i\<close>: the \<open>listen\<close>
  callback of the primary server logs and starts the heartbeat manager, that of the
  loopback server does nothing; the \<open>error\<close> handlers only log.
\<close>

definition on_listening :: "nat \<Rightarrow> http_server \<Rightarrow> process \<Rightarrow> process" where
  "on_listening i srv st =
     (if exit_code st \<noteq> None \<or> i \<ge> length (servers st) \<or> \<not> is_primary srv then st
      else (let g = servers st ! i in
        st\<lparr>servers := (servers st)[i := g\<lparr>hbMgr := start (hbMgr g)\<rparr>],
           trace := trace st
             @ [LogInfo (ServiceStarted (label g) (listen_host srv) (listen_port srv))]
             @ (if needLoopback (listen_host srv)
                then [LogInfo (LoopbackAlsoListening (label g) (listen_port srv))] else [])\<rparr>))"

definition on_listen_error :: "nat \<Rightarrow> http_server \<Rightarrow> process \<Rightarrow> process" where
  "on_listen_error i srv st =
     (if exit_code st \<noteq> None \<or> i \<ge> length (servers st) then st
      else (let g = servers st ! i in
        st\<lparr>trace := trace st
             @ [if is_primary srv
                then LogError (PrimaryListenerFailed (label g) (listen_host srv) (listen_port srv))
                else LogWarn (LoopbackListenerFailed (label g) (listen_port srv))]\<rparr>))"

subsection \<open>Graceful shutdown\<close>

definition shutdown_group :: "group \<Rightarrow> group" where
  "shutdown_group g = g\<lparr>hbMgr := stop (hbMgr g), phase := WsClosing\<rparr>"

definition gracefulShutdown :: "signal \<Rightarrow> process \<Rightarrow> process" where
  "gracefulShutdown sig st =
     (if exit_code st \<noteq> None then st
      else if servers st = []
      then st\<lparr>trace := trace st @ [LogInfo (SignalReceived sig), LogInfo ServerStopped],
              exit_code := Some 0\<rparr>
      else st\<lparr>pendingCount := int (length (servers st)),
              servers := map shutdown_group (servers st),
              trace := trace st @ [LogInfo (SignalReceived sig)]
                @ concat (map (\<lambda>g. map Terminate (wsClients g)) (servers st)),
              force_exit_after := Some 5000\<rparr>)"

text \<open>The callback of \<open>wsServer.close\<close> for group number \<open>i\<close>.\<close>

definition ws_closed :: "nat \<Rightarrow> process \<Rightarrow> process" where
  "ws_closed i st =
     (if exit_code st \<noteq> None \<or> i \<ge> length (servers st) then st
      else (let g = servers st ! i in
        case phase g of
          WsClosing \<Rightarrow>
            st\<lparr>servers := (servers st)[i := g\<lparr>phase := HttpClosing (length (httpServers g))\<rparr>]\<rparr>
        | _ \<Rightarrow> st))"

text \<open>The callback of \<open>srv.close\<close> for one HTTP server of group number \<open>i\<close>.\<close>

definition http_closed :: "nat \<Rightarrow> process \<Rightarrow> process" where
  "http_closed i st =
     (if exit_code st \<noteq> None \<or> i \<ge> length (servers st) then st
      else (let g = servers st ! i in
        case phase g of
          HttpClosing (Suc httpPending) \<Rightarrow>
            \<comment> \<open>\<open>httpPending\<close> is the value after the decrement\<close>
            (if httpPending = 0
             then (let st' = st\<lparr>servers := (servers st)[i := g\<lparr>phase := Closed\<rparr>],
                                trace := trace st @ [LogInfo (GroupClosed (label g))],
                                pendingCount := pendingCount st - 1\<rparr>
                   in if pendingCount st' = 0
                      then st'\<lparr>trace := trace st' @ [LogInfo ServerStopped], exit_code := Some 0\<rparr>
                      else st')
             else st\<lparr>servers := (servers st)[i := g\<lparr>phase := HttpClosing httpPending\<rparr>]\<rparr>)
        | _ \<Rightarrow> st))"

text \<open>The callback of the \<open>setTimeout\<close> of \<open>gracefulShutdown\<close>.\<close>

definition force_exit :: "process \<Rightarrow> process" where
  "force_exit st =
     (if exit_code st \<noteq> None \<or> force_exit_after st = None then st
      else st\<lparr>trace := trace st @ [LogWarn ForcedExit], exit_code := Some 1\<rparr>)"

datatype close_event = WsClosed nat | HttpClosed nat

fun deliver :: "close_event \<Rightarrow> process \<Rightarrow> process" where
  "deliver (WsClosed i) st = ws_closed i st"
| "deliver (HttpClosed i) st = http_closed i st"

definition run_closes :: "close_event list \<Rightarrow> process \<Rightarrow> process" where
  "run_closes evs st = fold deliver evs st"

subsection \<open>Connections of a group\<close>

text \<open>
  The events of one connection, seen from its group. The \<open>ws\<close> library adds the socket to
  \<open>clients\<close> before it emits \<open>connection\<close> and deletes it before the \<open>close\<close> handler of
  \<open>attachHandlers\<close> runs; an \<open>error\<close> event leaves \<open>clients\<close> alone.
\<close>

definition group_connection :: "socket \<Rightarrow> js_string \<Rightarrow> int \<Rightarrow> group \<Rightarrow> group \<times> event list" where
  "group_connection s addr now g =
     (let cs = (if s \<in> set (wsClients g) then wsClients g else wsClients g @ [s]);
          (hb, evs) = on_connection (label g) s addr now cs (hbMgr g)
      in (g\<lparr>wsClients := cs, hbMgr := hb\<rparr>, evs))"

definition group_close :: "socket \<Rightarrow> js_string \<Rightarrow> group \<Rightarrow> group \<times> event list" where
  "group_close s addr g =
     (let cs = removeAll s (wsClients g);
          (hb, evs) = on_close (label g) s addr cs (hbMgr g)
      in (g\<lparr>wsClients := cs, hbMgr := hb\<rparr>, evs))"

definition group_error :: "socket \<Rightarrow> js_string \<Rightarrow> group \<Rightarrow> group \<times> event list" where
  "group_error s addr g =
     (let (hb, evs) = on_error (label g) s addr (hbMgr g) in (g\<lparr>hbMgr := hb\<rparr>, evs))"

definition group_message :: "runtime \<Rightarrow> world \<Rightarrow> socket \<Rightarrow> js_string \<Rightarrow> 8 word list \<Rightarrow> group
    \<Rightarrow> group \<times> event list" where
  "group_message rt w s addr rawData g =
     (let (hb, evs) = on_message rt w s addr rawData (wsClients g) (hbMgr g)
      in (g\<lparr>hbMgr := hb\<rparr>, evs))"

definition group_tick :: "hb_config \<Rightarrow> world \<Rightarrow> int \<Rightarrow> group \<Rightarrow> group \<times> event list" where
  "group_tick cfg w now g =
     (let (hb, evs) = fire_timer cfg w now (hbMgr g) in (g\<lparr>hbMgr := hb\<rparr>, evs))"

text \<open>
  An upgrade request that reaches the HTTP server \<open>srv\<close>: \<open>bindUpgrade\<close> hands it to the
  \<open>WebSocket.Server\<close> of the group \<open>upgrade_to srv\<close>, whose \<open>connection\<close> handler registers
  the new socket with the heartbeat manager of that group.
\<close>

definition on_upgrade :: "http_server \<Rightarrow> socket \<Rightarrow> js_string \<Rightarrow> int \<Rightarrow> process \<Rightarrow> process" where
  "on_upgrade srv s addr now st =
     (if exit_code st \<noteq> None then st
      else st\<lparr>servers :=
                map (\<lambda>g. if label g = upgrade_to srv then fst (group_connection s addr now g) else g)
                  (servers st),
              trace := trace st
                @ concat (map (\<lambda>g. if label g = upgrade_to srv
                                   then snd (group_connection s addr now g) else [])
                            (servers st))\<rparr>)"

section \<open>Observations on traces and states\<close>

text \<open>The \<open>send\<close> calls of a trace, and the records it logs at info level.\<close>

fun sends :: "event list \<Rightarrow> (socket \<times> js_string) list" where
  "sends [] = []"
| "sends (Send c d # evs) = (c, d) # sends evs"
| "sends (ev # evs) = sends evs"

fun infos :: "event list \<Rightarrow> log_record list" where
  "infos [] = []"
| "infos (LogInfo r # evs) = r # infos evs"
| "infos (ev # evs) = infos evs"

definition bound_addresses :: "http_server list \<Rightarrow> (js_string \<times> nat) list" where
  "bound_addresses srvs = map (\<lambda>srv. (listen_host srv, listen_port srv)) srvs"

text \<open>Every socket of the registry of a group is a client of its \<open>WebSocket.Server\<close>.\<close>

definition registry_within_clients :: "group \<Rightarrow> bool" where
  "registry_within_clients g = (fst ` set (clientMap (hbMgr g)) \<subseteq> set (wsClients g))"

text \<open>
  A group is closed when the close callback of its \<open>WebSocket.Server\<close> and those of all its
  HTTP servers have run.
\<close>

definition open_groups :: "process \<Rightarrow> nat" where
  "open_groups st = length (filter (\<lambda>g. phase g \<noteq> Closed) (servers st))"

definition all_closed :: "process \<Rightarrow> bool" where
  "all_closed st = list_all (\<lambda>g. phase g = Closed) (servers st)"

text \<open>
  The close callbacks of group number \<open>i\<close>, that of its \<open>WebSocket.Server\<close> first and then
  one for each of its HTTP servers; and those of all groups, group by group.
\<close>

definition callbacks_of :: "group list \<Rightarrow> nat \<Rightarrow> close_event list" where
  "callbacks_of gs i = WsClosed i # replicate (length (httpServers (gs ! i))) (HttpClosed i)"

definition all_callbacks :: "group list \<Rightarrow> close_event list" where
  "all_callbacks gs = concat (map (callbacks_of gs) [0..<length gs])"

text \<open>The invariant of a process between the signal and its exit.\<close>

definition closing_group :: "group \<Rightarrow> bool" where
  "closing_group g =
     (phase g \<noteq> Serving \<and> phase g \<noteq> HttpClosing 0 \<and> httpServers g \<noteq> []
      \<and> \<not> timer (hbMgr g) \<and> clientMap (hbMgr g) = [])"

definition shutting_down :: "process \<Rightarrow> bool" where
  "shutting_down st =
     (force_exit_after st = Some 5000
      \<and> list_all closing_group (servers st)
      \<and> (if exit_code st = None
          then pendingCount st = int (open_groups st) \<and> 0 < open_groups st
          else exit_code st = Some 0 \<and> open_groups st = 0))"

text \<open>
  The close callbacks that the runtime can deliver after the signal, after those of \<open>past\<close>:
  that of a \<open>WebSocket.Server\<close> once (\<open>wsServer.close\<close> is called with it once), and those
  of the HTTP servers of a group only after it (\<open>srv.close\<close> is called inside it), one for
  each HTTP server of the group.
\<close>

fun deliverable :: "group list \<Rightarrow> close_event list \<Rightarrow> close_event list \<Rightarrow> bool" where
  "deliverable gs past [] = True"
| "deliverable gs past (WsClosed i # evs) =
     (i < length gs \<and> WsClosed i \<notin> set past \<and> deliverable gs (past @ [WsClosed i]) evs)"
| "deliverable gs past (HttpClosed i # evs) =
     (i < length gs \<and> WsClosed i \<in> set past
      \<and> count_list past (HttpClosed i) < length (httpServers (gs ! i))
      \<and> deliverable gs (past @ [HttpClosed i]) evs)"

text \<open>
  All \<open>WebSocket.Server\<close>s and all HTTP servers have closed: among the callbacks delivered
  are that of every \<open>WebSocket.Server\<close> and as many of every group as it has HTTP servers.
\<close>

definition all_have_closed :: "group list \<Rightarrow> close_event list \<Rightarrow> bool" where
  "all_have_closed gs evs =
     list_all (\<lambda>i. WsClosed i \<in> set evs
                  \<and> count_list evs (HttpClosed i) = length (httpServers (gs ! i)))
       [0..<length gs]"

text \<open>
  The phase of group number \<open>i\<close> as the callbacks delivered determine it, and the relation
  of a process after the signal to the callbacks delivered since.
\<close>

definition phase_after :: "group list \<Rightarrow> close_event list \<Rightarrow> nat \<Rightarrow> phase" where
  "phase_after gs past i =
     (if WsClosed i \<notin> set past then WsClosing
      else if count_list past (HttpClosed i) = length (httpServers (gs ! i)) then Closed
      else HttpClosing (length (httpServers (gs ! i)) - count_list past (HttpClosed i)))"

definition orderly :: "group list \<Rightarrow> close_event list \<Rightarrow> bool" where
  "orderly gs past =
     (\<forall>i. (WsClosed i \<notin> set past \<longrightarrow> count_list past (HttpClosed i) = 0)
        \<and> count_list past (HttpClosed i) \<le> length (httpServers (gs ! i)))"

definition tracks :: "group list \<Rightarrow> close_event list \<Rightarrow> process \<Rightarrow> bool" where
  "tracks gs past s =
     (shutting_down s \<and> orderly gs past
      \<and> map httpServers (servers s) = map httpServers gs
      \<and> (\<forall>i < length gs. phase (servers s ! i) = phase_after gs past i))"

section \<open>Sample values\<close>

text \<open>A transport on which every socket is open and no call throws.\<close>

definition quiet_world :: world where
  "quiet_world =
     \<lparr>readyState = (\<lambda>_. OPEN), ping_throws = (\<lambda>_. False), send_throws = (\<lambda>_. False)\<rparr>"

text \<open>
  A started heartbeat manager with one connection, socket 1, registered at time 0 and
  acknowledged once since.
\<close>

definition one_client :: heartbeat where
  "one_client = markAlive 1 (register 1 (js ''10.0.0.7'') 0 (start createHeartbeatManager))"

text \<open>
  A runtime for payloads of ASCII bytes: \<open>toString\<close> widens each byte to a code unit, and
  \<open>JSON.parse\<close> and \<open>JSON.stringify\<close> are given on the messages used below, where they agree
  with the built-ins (every other text is taken not to be JSON).
\<close>

definition ascii_bytes :: "string \<Rightarrow> 8 word list" where
  "ascii_bytes s = map (\<lambda>c. of_nat (of_char c)) s"

definition ascii_toString :: "8 word list \<Rightarrow> js_string" where
  "ascii_toString bs = map ucast bs"

definition sample_parse :: "js_string \<Rightarrow> json option" where
  \<open>sample_parse = map_of
     [(js ''{"type":"ping"}'', ping_message),
      (js ''{"type":"ping","seq":1}'',
         JObj [(js ''type'', JStr (js ''ping'')), (js ''seq'', JNum 1)]),
      (js ''{ "type" : "chat" }'', JObj [(js ''type'', JStr (js ''chat''))])]\<close>

definition sample_stringify :: "json \<Rightarrow> js_string" where
  \<open>sample_stringify v =
     (if v = pong_message then js ''{"type":"pong"}''
      else if v = ping_message then js ''{"type":"ping"}''
      else if v = JObj [(js ''type'', JStr (js ''chat''))] then js ''{"type":"chat"}''
      else if v = JObj [(js ''type'', JStr (js ''ping'')), (js ''seq'', JNum 1)]
        then js ''{"type":"ping","seq":1}''
      else [])\<close>

definition sample_runtime :: runtime where
  "sample_runtime =
     \<lparr>toString_utf8 = ascii_toString, JSON_parse = sample_parse,
      JSON_stringify = sample_stringify\<rparr>"


definition ping_with_seq :: "8 word list" where
  \<open>ping_with_seq = ascii_bytes ''{"type":"ping","seq":1}''\<close>

definition plain_ping :: "8 word list" where
  \<open>plain_ping = ascii_bytes ''{"type":"ping"}''\<close>

definition chat_message :: "8 word list" where
  \<open>chat_message = ascii_bytes ''{ "type" : "chat" }''\<close>

text \<open>A configuration with the plain protocol only, and a process with two groups.\<close>

definition ws_only :: config where
  "ws_only =
     \<lparr>ws_enabled = True, ws_host = js ''0.0.0.0'', ws_port = 8070,
      wss_enabled = False, wss_host = js ''0.0.0.0'', wss_port = 8071,
      maxPayload = 10485760, heartbeat_cfg = \<lparr>interval = 15000, timeout = 30000\<rparr>\<rparr>"

text \<open>TLS files that exist when the configuration is loaded; the key cannot be read.\<close>

definition unreadable_key :: tls_files where
  "unreadable_key =
     \<lparr>cert_exists = True, key_exists = True, cert_readable = True, key_readable = False\<rparr>"

definition busy_process :: process where
  "busy_process =
     \<lparr>servers =
        [(new_group WS (js ''192.168.1.10'') 8070)\<lparr>wsClients := [1, 2], hbMgr := one_client\<rparr>,
         new_group WSS (js ''0.0.0.0'') 8071],
      exit_code = None, pendingCount = 0, force_exit_after = None, trace = []\<rparr>"

section \<open>Properties of the heartbeat manager\<close>

lemma fst_sweep_Cons:
  "fst (sweep cfg w now ((s, e) # rest)) =
     (if is_zombie cfg now e then fst (sweep cfg w now rest)
      else (s, e\<lparr>isAlive := False, lastPingSentAt := now\<rparr>) # fst (sweep cfg w now rest))"
  by (simp split: prod.splits)

lemma snd_sweep_Cons:
  "snd (sweep cfg w now ((s, e) # rest)) =
     (if is_zombie cfg now e
      then [LogWarn (ZombieCleaned (ip e) (round_seconds (now - lastPingSentAt e))), Terminate s]
             @ snd (sweep cfg w now rest)
      else send_ping w s e @ snd (sweep cfg w now rest))"
  by (simp split: prod.splits)

lemma sweep_keys_subset:
  "k \<in> fst ` set (fst (sweep cfg w now l)) \<Longrightarrow> k \<in> fst ` set l"
proof (induction l)
  case Nil
  then show ?case by simp
next
  case (Cons p l)
  obtain s e where p: "p = (s, e)" by (cases p)
  from Cons show ?case
    unfolding p fst_sweep_Cons by (auto split: if_splits)
qed

lemma sweep_distinct:
  "distinct (map fst l) \<Longrightarrow> distinct (map fst (fst (sweep cfg w now l)))"
proof (induction l)
  case Nil
  then show ?case by simp
next
  case (Cons p l)
  obtain s e where p: "p = (s, e)" by (cases p)
  from Cons.prems p have "s \<notin> fst ` set l" by auto
  with sweep_keys_subset [of s cfg w now l]
  have "s \<notin> fst ` set (fst (sweep cfg w now l))" by blast
  with Cons show ?case
    unfolding p fst_sweep_Cons by auto
qed

lemma sweep_keeps:
  "map_of l s = Some e \<Longrightarrow> \<not> is_zombie cfg now e \<Longrightarrow>
   map_of (fst (sweep cfg w now l)) s = Some (e\<lparr>isAlive := False, lastPingSentAt := now\<rparr>)"
proof (induction l)
  case Nil
  then show ?case by simp
next
  case (Cons p l)
  obtain k v where p: "p = (k, v)" by (cases p)
  from Cons show ?case
    unfolding p fst_sweep_Cons by (auto split: if_splits)
qed

lemma sweep_absent:
  "map_of l s = None \<Longrightarrow> map_of (fst (sweep cfg w now l)) s = None"
proof (induction l)
  case Nil
  then show ?case by simp
next
  case (Cons p l)
  obtain k v where p: "p = (k, v)" by (cases p)
  from Cons show ?case
    unfolding p fst_sweep_Cons by (auto split: if_splits)
qed

lemma sweep_no_terminate:
  "s \<notin> fst ` set l \<Longrightarrow> Terminate s \<notin> set (snd (sweep cfg w now l))"
proof (induction l)
  case Nil
  then show ?case by simp
next
  case (Cons p l)
  obtain k v where p: "p = (k, v)" by (cases p)
  from Cons show ?case
    unfolding p snd_sweep_Cons by (auto simp: send_ping_def)
qed

lemma sweep_evicts:
  "distinct (map fst l) \<Longrightarrow> map_of l s = Some e \<Longrightarrow> is_zombie cfg now e \<Longrightarrow>
   map_of (fst (sweep cfg w now l)) s = None \<and> Terminate s \<in> set (snd (sweep cfg w now l))"
proof (induction l)
  case Nil
  then show ?case by simp
next
  case (Cons p l)
  obtain k v where p: "p = (k, v)" by (cases p)
  show ?case
  proof (cases "k = s")
    case True
    with Cons.prems p have "v = e" and "map_of l s = None"
      by (auto simp: map_of_eq_None_iff)
    with True Cons.prems(3) sweep_absent [of l s cfg w now] show ?thesis
      unfolding p fst_sweep_Cons snd_sweep_Cons by auto
  next
    case False
    with Cons show ?thesis
      unfolding p fst_sweep_Cons snd_sweep_Cons by auto
  qed
qed

lemma sweep_keeps_no_terminate:
  "distinct (map fst l) \<Longrightarrow> map_of l s = Some e \<Longrightarrow> \<not> is_zombie cfg now e \<Longrightarrow>
   Terminate s \<notin> set (snd (sweep cfg w now l))"
proof (induction l)
  case Nil
  then show ?case by simp
next
  case (Cons p l)
  obtain k v where p: "p = (k, v)" by (cases p)
  show ?case
  proof (cases "k = s")
    case True
    with Cons.prems p have "v = e" and "s \<notin> fst ` set l"
      by auto
    with True Cons.prems(3) sweep_no_terminate [of s l cfg w now] show ?thesis
      unfolding p snd_sweep_Cons by (auto simp: send_ping_def)
  next
    case False
    with Cons show ?thesis
      unfolding p snd_sweep_Cons by (auto simp: send_ping_def)
  qed
qed

lemma timer_heartbeat_tick: "timer (fst (heartbeat_tick cfg w now hb)) = timer hb"
  by (simp add: heartbeat_tick_def split: prod.splits)

lemma clientMap_heartbeat_tick:
  "clientMap (fst (heartbeat_tick cfg w now hb)) = fst (sweep cfg w now (clientMap hb))"
  by (simp add: heartbeat_tick_def split: prod.splits)

lemma snd_heartbeat_tick:
  "snd (heartbeat_tick cfg w now hb) = snd (sweep cfg w now (clientMap hb))"
  by (simp add: heartbeat_tick_def split: prod.splits)

lemma fire_timer_running:
  "timer hb \<Longrightarrow> fire_timer cfg w now hb = heartbeat_tick cfg w now hb"
  by (simp add: fire_timer_def)

lemma evicted_at_Cons:
  "evicted_at cfg w (t # ts) hb s =
     (if map_of (clientMap (fst (fire_timer cfg w t hb))) s = None
         \<and> Terminate s \<in> set (snd (fire_timer cfg w t hb)) then Some t
      else evicted_at cfg w ts (fst (fire_timer cfg w t hb)) s)"
  by (simp split: prod.splits)

lemma tick_keeps:
  assumes "timer hb" "map_of (clientMap hb) s = Some e" "\<not> is_zombie cfg t e"
  shows "timer (fst (fire_timer cfg w t hb))"
    and "map_of (clientMap (fst (fire_timer cfg w t hb))) s
           = Some (e\<lparr>isAlive := False, lastPingSentAt := t\<rparr>)"
  using assms
  by (simp_all add: fire_timer_running timer_heartbeat_tick clientMap_heartbeat_tick sweep_keeps)

lemma tick_distinct:
  "distinct (map fst (clientMap hb)) \<Longrightarrow>
   distinct (map fst (clientMap (fst (fire_timer cfg w t hb))))"
  by (simp add: fire_timer_def clientMap_heartbeat_tick sweep_distinct)

lemma tick_evicts:
  assumes "timer hb" "distinct (map fst (clientMap hb))"
    "map_of (clientMap hb) s = Some e" "is_zombie cfg t e"
  shows "map_of (clientMap (fst (fire_timer cfg w t hb))) s = None"
    and "Terminate s \<in> set (snd (fire_timer cfg w t hb))"
  using assms sweep_evicts [of "clientMap hb" s e cfg t w]
  by (simp_all add: fire_timer_running clientMap_heartbeat_tick snd_heartbeat_tick)

lemma sweep_no_ping:
  "s \<notin> fst ` set l \<Longrightarrow> Ping s \<notin> set (snd (sweep cfg w now l))"
proof (induction l)
  case Nil
  then show ?case by simp
next
  case (Cons p l)
  obtain k v where p: "p = (k, v)" by (cases p)
  from Cons show ?case
    unfolding p snd_sweep_Cons by (auto simp: send_ping_def)
qed

lemma sweep_keeps_ping:
  "distinct (map fst l) \<Longrightarrow> map_of l s = Some e \<Longrightarrow> \<not> is_zombie cfg now e \<Longrightarrow>
   (Ping s \<in> set (snd (sweep cfg w now l))) = (readyState w s = OPEN)"
proof (induction l)
  case Nil
  then show ?case by simp
next
  case (Cons p l)
  obtain k v where p: "p = (k, v)" by (cases p)
  show ?case
  proof (cases "k = s")
    case True
    with Cons.prems p have "v = e" and "s \<notin> fst ` set l"
      by auto
    with True Cons.prems(3) sweep_no_ping [of s l cfg w now] show ?thesis
      unfolding p snd_sweep_Cons by (auto simp: send_ping_def)
  next
    case False
    with Cons show ?thesis
      unfolding p snd_sweep_Cons by (auto simp: send_ping_def)
  qed
qed

lemma tick_keeps_events:
  assumes "timer hb" "distinct (map fst (clientMap hb))"
    "map_of (clientMap hb) s = Some e" "\<not> is_zombie cfg t e"
  shows "Terminate s \<notin> set (snd (fire_timer cfg w t hb))"
    and "(Ping s \<in> set (snd (fire_timer cfg w t hb))) = (readyState w s = OPEN)"
  using assms sweep_keeps_no_terminate [of "clientMap hb" s e cfg t w]
    sweep_keeps_ping [of "clientMap hb" s e cfg t w]
  by (simp_all add: fire_timer_running snd_heartbeat_tick)

lemma markAlive_registered:
  "map_of (clientMap hb) s = Some e \<Longrightarrow>
   markAlive s hb = hb\<lparr>clientMap := AList.update s (e\<lparr>isAlive := True\<rparr>) (clientMap hb)\<rparr>"
  by (simp add: markAlive_def)

lemma markAlive_idem: "markAlive s (markAlive s hb) = markAlive s hb"
  by (cases "map_of (clientMap hb) s") (simp_all add: markAlive_def update_conv')

lemma markAlive_funpow: "0 < n \<Longrightarrow> (markAlive s ^^ n) hb = markAlive s hb"
proof (induction n)
  case 0
  then show ?case by simp
next
  case (Suc n)
  then show ?case by (cases n) (simp_all add: markAlive_idem)
qed

lemma markAlive_distinct:
  "distinct (map fst (clientMap hb)) \<Longrightarrow> distinct (map fst (clientMap (markAlive s hb)))"
  by (cases "map_of (clientMap hb) s") (simp_all add: markAlive_def distinct_update)

lemma one_client_eq:
  "one_client =
     \<lparr>clientMap = [(1, \<lparr>isAlive = True, lastPingSentAt = 0, ip = js ''10.0.0.7''\<rparr>)],
      timer = True\<rparr>"
  by (simp add: one_client_def markAlive_def register_def start_def createHeartbeatManager_def)

text \<open>
  As long as each firing comes less than the timeout after the one before, a connection
  that was alive at its last acknowledgment is never evicted, however long it stays silent:
  every firing that does not evict stamps the entry with the current time. This is so for
  every timer on schedule whose delay is shorter than the timeout.
\<close>

lemma close_firings_never_evict:
  assumes "timer hb" and "map_of (clientMap hb) s = Some e"
    and "isAlive e \<or> t - lastPingSentAt e < timeout cfg"
    and "gaps_below (timeout cfg) t ts"
  shows "evicted_at cfg w (t # ts) hb s = None"
  using assms
proof (induction ts arbitrary: t hb e)
  case Nil
  from Nil.prems(3) have nz: "\<not> is_zombie cfg t e"
    by (auto simp: is_zombie_def)
  from tick_keeps(2) [OF Nil.prems(1,2) nz, of w] show ?case
    unfolding evicted_at_Cons by simp
next
  case (Cons t' ts)
  from Cons.prems(3) have nz: "\<not> is_zombie cfg t e"
    by (auto simp: is_zombie_def)
  note k = tick_keeps [OF Cons.prems(1,2) nz, of w]
  have "evicted_at cfg w (t' # ts) (fst (fire_timer cfg w t hb)) s = None"
    by (rule Cons.IH [OF k]) (use Cons.prems(4) in simp_all)
  with k(2) show ?case
    unfolding evicted_at_Cons [of cfg w t] by simp
qed

lemma gaps_on_schedule:
  "timer_delay cfg < d \<Longrightarrow> gaps_below d t (on_schedule cfg (t + timer_delay cfg) n)"
proof (induction n arbitrary: t)
  case 0
  then show ?case by simp
next
  case (Suc n)
  from Suc.IH [OF Suc.prems, of "t + timer_delay cfg"] Suc.prems show ?case
    by simp
qed

lemma delay_below_timeout_never_evicts:
  assumes "timer_delay cfg < timeout cfg" and "timer hb"
    and "map_of (clientMap hb) s = Some e" and "isAlive e"
  shows "evicted_at cfg w (on_schedule cfg t n) hb s = None"
proof (cases n)
  case 0
  then show ?thesis by simp
next
  case (Suc m)
  from assms(4) have "isAlive e \<or> t - lastPingSentAt e < timeout cfg" by simp
  from close_firings_never_evict [OF assms(2,3) this gaps_on_schedule [OF assms(1)]]
  show ?thesis
    by (simp add: Suc)
qed

text \<open>
  Claim C1, as the code has it. Let a registered connection be alive right after its last
  acknowledgment at time \<open>ta\<close>, let the timer run, and let the connection stay silent. The
  next firing, at \<open>t1\<close>, does not evict it: it marks it not alive, stamps it with \<open>t1\<close> and
  sends it a probe if its transport is open. If the firing after that, at \<open>t2\<close>, comes at
  least the timeout after \<open>t1\<close>, it evicts the connection: it deletes it from the registry
  and terminates its transport, no earlier than the timeout after the last acknowledgment.
  When the two firings are on schedule (\<open>t1\<close> at most one delay of the timer after \<open>ta\<close>,
  \<open>t2\<close> one delay after \<open>t1\<close>), the eviction comes no earlier than one delay and no later
  than two delays after the last acknowledgment; for an interval within the range of the
  timer and a timeout that is not negative, that is no later than interval + timeout + one
  interval.
\<close>

theorem eviction_at_second_firing:
  assumes "timer hb" and "distinct (map fst (clientMap hb))"
    and "map_of (clientMap hb) s = Some e" and "isAlive e"
    and "ta \<le> t1" and "timeout cfg \<le> t2 - t1"
  shows "map_of (clientMap (fst (fire_timer cfg w t1 hb))) s
        = Some (e\<lparr>isAlive := False, lastPingSentAt := t1\<rparr>)
    \<and> Terminate s \<notin> set (snd (fire_timer cfg w t1 hb))
    \<and> (Ping s \<in> set (snd (fire_timer cfg w t1 hb))) = (readyState w s = OPEN)
    \<and> evicted_at cfg w (t1 # t2 # ts) hb s = Some t2
    \<and> ta + timeout cfg \<le> t2
    \<and> (t1 \<le> ta + timer_delay cfg \<and> t2 = t1 + timer_delay cfg \<longrightarrow>
         ta + timer_delay cfg \<le> t2 \<and> t2 \<le> ta + 2 * timer_delay cfg
         \<and> (1 \<le> interval cfg \<and> interval cfg \<le> 2147483647 \<and> 0 \<le> timeout cfg \<longrightarrow>
              t2 \<le> ta + (interval cfg + timeout cfg + interval cfg)))"
proof -
  from assms(4) have nz: "\<not> is_zombie cfg t1 e"
    by (simp add: is_zombie_def)
  note k = tick_keeps [OF assms(1,3) nz, of w]
  note q = tick_keeps_events [OF assms(1-3) nz, of w]
  note d = tick_distinct [OF assms(2), of cfg w t1]
  have z: "is_zombie cfg t2 (e\<lparr>isAlive := False, lastPingSentAt := t1\<rparr>)"
    using assms(6) by (simp add: is_zombie_def)
  note ev = tick_evicts [OF k(1) d k(2) z, of w]
  have "evicted_at cfg w (t1 # t2 # ts) hb s = Some t2"
    unfolding evicted_at_Cons [of cfg w t1] using k(2)
    unfolding evicted_at_Cons [of cfg w t2] using ev by simp
  moreover have "ta + timeout cfg \<le> t2"
    using assms(5,6) by simp
  moreover have "t1 \<le> ta + timer_delay cfg \<and> t2 = t1 + timer_delay cfg \<longrightarrow>
         ta + timer_delay cfg \<le> t2 \<and> t2 \<le> ta + 2 * timer_delay cfg
         \<and> (1 \<le> interval cfg \<and> interval cfg \<le> 2147483647 \<and> 0 \<le> timeout cfg \<longrightarrow>
              t2 \<le> ta + (interval cfg + timeout cfg + interval cfg))"
    using assms(5) by (auto simp: timer_delay_def)
  ultimately show ?thesis
    using k(2) q by blast
qed

text \<open>
  The theorem at interval 20, timeout 5: socket 1 acknowledges at time 3, the timer fires
  at 20 and at 40, on schedule, and the second firing evicts it.
\<close>

theorem eviction_at_second_firing_witness:
  "timer one_client \<and> distinct (map fst (clientMap one_client))
   \<and> map_of (clientMap one_client) 1
       = Some \<lparr>isAlive = True, lastPingSentAt = 0, ip = js ''10.0.0.7''\<rparr>
   \<and> Ping 1 \<in> set (snd (fire_timer \<lparr>interval = 20, timeout = 5\<rparr> quiet_world 20 one_client))
   \<and> evicted_at \<lparr>interval = 20, timeout = 5\<rparr> quiet_world [20, 40] one_client 1 = Some 40
   \<and> (3 :: int) + 20 \<le> 40 \<and> (40 :: int) \<le> 3 + 2 * 20"
  using eviction_at_second_firing [of one_client 1
      "\<lparr>isAlive = True, lastPingSentAt = 0, ip = js ''10.0.0.7''\<rparr>" 3 20
      "\<lparr>interval = 20, timeout = 5\<rparr>" 40 quiet_world "[]"]
  by (simp add: one_client_eq quiet_world_def)

text \<open>
  Claim C1 as the specification states it fails in both directions, with the timer on
  schedule. With interval 30000 and timeout 10000, socket 1 acknowledges at time 29000; the
  timer fires at 30000 and at 60000, and the second firing evicts the socket, 31000 after
  its last acknowledgment and so earlier than interval + timeout = 40000. With the loader's
  defaults, interval 15000 and timeout 30000, and the last acknowledgment at time 0, the
  socket is still not evicted after the six firings from 15000 to 90000, later than
  interval + timeout + one tick = 60000.
\<close>

theorem eviction_timing_counterexample:
  "on_schedule \<lparr>interval = 30000, timeout = 10000\<rparr> 30000 2 = [30000, 60000]
   \<and> evicted_at \<lparr>interval = 30000, timeout = 10000\<rparr> quiet_world [30000, 60000] one_client 1
     = Some 60000
   \<and> (60000 :: int) < 29000 + (30000 + 10000)
   \<and> on_schedule \<lparr>interval = 15000, timeout = 30000\<rparr> 15000 6
     = [15000, 30000, 45000, 60000, 75000, 90000]
   \<and> evicted_at \<lparr>interval = 15000, timeout = 30000\<rparr> quiet_world
       [15000, 30000, 45000, 60000, 75000, 90000] one_client 1 = None"
  by (simp add: one_client_eq fire_timer_def heartbeat_tick_def is_zombie_def quiet_world_def
      send_ping_def eval_nat_numeral timer_delay_def)

text \<open>
  Claim C9. For a registered connection and every \<open>n \<ge> 1\<close>, \<open>n\<close> calls of \<open>markAlive\<close>
  leave the heartbeat manager in the state one call leaves it in: the entry of the
  connection is alive, its other fields are unchanged; and the next run of the interval
  callback keeps the connection and does not terminate it.
\<close>

theorem markAlive_idempotent_and_kept:
  assumes "map_of (clientMap hb) s = Some e" and "distinct (map fst (clientMap hb))"
    and "0 < n"
  shows "(markAlive s ^^ n) hb = markAlive s hb
    \<and> map_of (clientMap ((markAlive s ^^ n) hb)) s = Some (e\<lparr>isAlive := True\<rparr>)
    \<and> map_of (clientMap (fst (heartbeat_tick cfg w now ((markAlive s ^^ n) hb)))) s
        = Some (e\<lparr>isAlive := False, lastPingSentAt := now\<rparr>)
    \<and> Terminate s \<notin> set (snd (heartbeat_tick cfg w now ((markAlive s ^^ n) hb)))"
proof -
  have once: "(markAlive s ^^ n) hb = markAlive s hb"
    using assms(3) by (rule markAlive_funpow)
  have m: "map_of (clientMap (markAlive s hb)) s = Some (e\<lparr>isAlive := True\<rparr>)"
    using assms(1) by (simp add: markAlive_registered update_conv')
  have d: "distinct (map fst (clientMap (markAlive s hb)))"
    using assms(2) by (rule markAlive_distinct)
  have nz: "\<not> is_zombie cfg now (e\<lparr>isAlive := True\<rparr>)"
    by (simp add: is_zombie_def)
  have "map_of (clientMap (fst (heartbeat_tick cfg w now (markAlive s hb)))) s
      = Some (e\<lparr>isAlive := False, lastPingSentAt := now\<rparr>)"
    using sweep_keeps [OF m nz, of w] by (simp add: clientMap_heartbeat_tick)
  moreover have "Terminate s \<notin> set (snd (heartbeat_tick cfg w now (markAlive s hb)))"
    using sweep_keeps_no_terminate [OF d m nz, of w] by (simp add: snd_heartbeat_tick)
  ultimately show ?thesis
    using once m by simp
qed

theorem markAlive_idempotent_and_kept_witness:
  "map_of (clientMap one_client) 1
     = Some \<lparr>isAlive = True, lastPingSentAt = 0, ip = js ''10.0.0.7''\<rparr>
   \<and> (markAlive 1 ^^ 3) one_client = markAlive 1 one_client
   \<and> map_of (clientMap (fst (heartbeat_tick \<lparr>interval = 20, timeout = 5\<rparr> quiet_world 20
        ((markAlive 1 ^^ 3) one_client)))) 1
       = Some \<lparr>isAlive = False, lastPingSentAt = 20, ip = js ''10.0.0.7''\<rparr>"
  using markAlive_idempotent_and_kept [of one_client 1
      "\<lparr>isAlive = True, lastPingSentAt = 0, ip = js ''10.0.0.7''\<rparr>" 3
      "\<lparr>interval = 20, timeout = 5\<rparr>" quiet_world 20]
  by (simp add: one_client_eq eval_nat_numeral markAlive_def)

text \<open>
  Claim C10. For a socket that is not in the registry, \<open>markAlive\<close> and the \<open>pong\<close>
  listener return the heartbeat manager as it was: no entry is created. This is the state
  of a socket after \<open>unregister\<close>, after \<open>stop\<close>, and after the interval callback evicted it,
  so an acknowledgment that arrives after the removal does not insert the socket again.
\<close>

theorem late_acknowledgment_is_ignored:
  "(map_of (clientMap hb) s = None \<longrightarrow> markAlive s hb = hb \<and> on_pong s hb = hb)
   \<and> markAlive s (unregister s hb) = unregister s hb
   \<and> on_pong s (unregister s hb) = unregister s hb
   \<and> markAlive s (stop hb) = stop hb
   \<and> on_pong s (stop hb) = stop hb
   \<and> (distinct (map fst (clientMap hb)) \<and> map_of (clientMap hb) s = Some e
        \<and> is_zombie cfg now e \<longrightarrow>
      markAlive s (fst (heartbeat_tick cfg w now hb)) = fst (heartbeat_tick cfg w now hb)
      \<and> on_pong s (fst (heartbeat_tick cfg w now hb)) = fst (heartbeat_tick cfg w now hb))"
proof -
  have noop: "markAlive s h = h \<and> on_pong s h = h" if "map_of (clientMap h) s = None" for h
    using that by (simp add: markAlive_def on_pong_def)
  have "map_of (clientMap (unregister s hb)) s = None"
    by (simp add: unregister_def delete_conv')
  moreover have "map_of (clientMap (stop hb)) s = None"
    by (simp add: stop_def)
  moreover have "map_of (clientMap (fst (heartbeat_tick cfg w now hb))) s = None"
    if "distinct (map fst (clientMap hb))" "map_of (clientMap hb) s = Some e"
      "is_zombie cfg now e"
    using sweep_evicts [OF that, of w] by (simp add: clientMap_heartbeat_tick)
  ultimately show ?thesis
    using noop by blast
qed

text \<open>
  Socket 2 was never registered; socket 1 is evicted by the firing at time 40 of the timer
  with interval 20 and timeout 5, and a late acknowledgment leaves the registry empty.
\<close>

theorem late_acknowledgment_is_ignored_witness:
  "map_of (clientMap one_client) 2 = None
   \<and> markAlive 2 one_client = one_client \<and> on_pong 2 one_client = one_client
   \<and> clientMap (markAlive 1 (fst (heartbeat_tick \<lparr>interval = 20, timeout = 5\<rparr> quiet_world 40
        (fst (heartbeat_tick \<lparr>interval = 20, timeout = 5\<rparr> quiet_world 20 one_client))))) = []"
  using late_acknowledgment_is_ignored [of one_client 2]
    late_acknowledgment_is_ignored [of
      "fst (heartbeat_tick \<lparr>interval = 20, timeout = 5\<rparr> quiet_world 20 one_client)" 1
      "\<lparr>isAlive = False, lastPingSentAt = 20, ip = js ''10.0.0.7''\<rparr>"
      "\<lparr>interval = 20, timeout = 5\<rparr>" 40 quiet_world]
  by (simp add: one_client_eq heartbeat_tick_def is_zombie_def quiet_world_def send_ping_def)

section \<open>Properties of the broadcast relay\<close>

lemma sends_append: "sends (xs @ ys) = sends xs @ sends ys"
  by (induction xs rule: sends.induct) simp_all


lemma Send_in_sends: "Send c d \<in> set evs \<longleftrightarrow> (c, d) \<in> set (sends evs)"
  by (induction evs rule: sends.induct) auto

lemma fst_forward_Cons:
  "fst (forward w sender out (c # cs)) =
     (if c \<noteq> sender \<and> readyState w c = OPEN \<and> \<not> send_throws w c
      then Suc (fst (forward w sender out cs)) else fst (forward w sender out cs))"
  by (simp split: prod.splits)

lemma snd_forward_Cons:
  "snd (forward w sender out (c # cs)) =
     (if c = sender \<or> readyState w c \<noteq> OPEN then snd (forward w sender out cs)
      else if send_throws w c
        then Send c out # LogError ForwardFailed # snd (forward w sender out cs)
        else Send c out # snd (forward w sender out cs))"
  by (simp split: prod.splits)

lemma forward_count:
  "fst (forward w sender out cs) =
     length (filter (\<lambda>c. c \<noteq> sender \<and> readyState w c = OPEN \<and> \<not> send_throws w c) cs)"
  by (induction cs) (simp_all add: fst_forward_Cons del: forward.simps(2))

lemma forward_sends:
  "sends (snd (forward w sender out cs)) =
     map (\<lambda>c. (c, out)) (filter (\<lambda>c. c \<noteq> sender \<and> readyState w c = OPEN) cs)"
  by (induction cs) (simp_all add: snd_forward_Cons del: forward.simps(2))


lemma broadcast_eq:
  "broadcast rt w sender senderIp rawData clients =
     snd (forward w sender (outgoing_of rt rawData) clients)
     @ [LogInfo (BroadcastSummary senderIp
          (length (filter (\<lambda>c. c \<noteq> sender \<and> readyState w c = OPEN \<and> \<not> send_throws w c)
             clients))
          (length (filter (\<lambda>c. readyState w c = OPEN) clients))
          (preview_of (outgoing_of rt rawData)))]"
  using forward_count [of w sender "outgoing_of rt rawData" clients]
  by (simp add: broadcast_def Let_def split_beta)

lemma broadcast_sends:
  "sends (broadcast rt w sender senderIp rawData clients) =
     map (\<lambda>c. (c, outgoing_of rt rawData))
       (filter (\<lambda>c. c \<noteq> sender \<and> readyState w c = OPEN) clients)"
  by (simp add: broadcast_eq sends_append forward_sends)



text \<open>
  Claim C6. Whatever the sender, the payload and the client set, the relay makes no \<open>send\<close>
  call on the sender: the recipients are the open clients other than the sender.
\<close>

theorem broadcast_never_echoes:
  "Send sender d \<notin> set (broadcast rt w sender senderIp rawData clients)
   \<and> sender \<notin> fst ` set (sends (broadcast rt w sender senderIp rawData clients))
   \<and> map fst (sends (broadcast rt w sender senderIp rawData clients))
       = filter (\<lambda>c. c \<noteq> sender \<and> readyState w c = OPEN) clients"
  by (auto simp: Send_in_sends broadcast_sends comp_def)

text \<open>Socket 1 sends while it stands twice in the client set, between sockets 2 and 3.\<close>

theorem broadcast_never_echoes_witness:
  "map fst (sends (broadcast sample_runtime quiet_world 1 (js ''10.0.0.7'') [104, 105]
      [1, 2, 1, 3])) = [2, 3]"
  using broadcast_never_echoes [of 1 "[104, 105]" sample_runtime quiet_world "js ''10.0.0.7''"
      "[104, 105]" "[1, 2, 1, 3]"]
  by (simp add: quiet_world_def)






























section \<open>Properties of the session handler\<close>

lemma sends_reply_pong: "sends (reply_pong rt w s addr) = [(s, JSON_stringify rt pong_message)]"
  by (simp add: reply_pong_def)

lemma infos_reply_pong: "infos (reply_pong rt w s addr) = []"
  by (simp add: reply_pong_def)

lemma is_app_ping_iff:
  "is_app_ping v \<longleftrightarrow>
     (\<exists>kvs. v = JObj kvs \<and> map_of kvs (js ''type'') = Some (JStr (js ''ping'')))"
  by (cases v) (simp_all add: is_app_ping_def)

lemma is_app_ping_ping_message: "is_app_ping ping_message"
  by (simp add: is_app_ping_iff ping_message_def)

lemma decode_Some:
  "JSON_parse rt (toString_utf8 rt rawData) = Some v \<Longrightarrow> decode rt rawData = v"
  by (simp add: decode_def)

lemma sample_decodes:
  \<open>JSON_parse sample_runtime (toString_utf8 sample_runtime plain_ping) = Some ping_message\<close>
  \<open>JSON_parse sample_runtime (toString_utf8 sample_runtime ping_with_seq)
     = Some (JObj [(js ''type'', JStr (js ''ping'')), (js ''seq'', JNum 1)])\<close>
  \<open>JSON_parse sample_runtime (toString_utf8 sample_runtime chat_message)
     = Some (JObj [(js ''type'', JStr (js ''chat''))])\<close>
  by (simp_all add: sample_runtime_def ascii_toString_def ascii_bytes_def js_def
      sample_parse_def plain_ping_def ping_with_seq_def chat_message_def)

text \<open>
  Claim C5. When the payload decodes to the object \<open>{"type":"ping"}\<close>, the handler marks
  the connection alive through \<open>markAlive\<close>, makes one \<open>send\<close> call, on the sender and with
  the encoding of the object \<open>{"type":"pong"}\<close>, and does not run the relay: no summary is
  logged and no other socket is sent anything.
\<close>

theorem app_ping_answered_not_broadcast:
  assumes "JSON_parse rt (toString_utf8 rt rawData) = Some (JObj [(js ''type'', JStr (js ''ping''))])"
  shows "fst (on_message rt w s addr rawData clients hb) = markAlive s hb
    \<and> snd (on_message rt w s addr rawData clients hb)
        = Send s (JSON_stringify rt (JObj [(js ''type'', JStr (js ''pong''))]))
          # (if send_throws w s then [LogError (PongReplyFailed addr)] else [])
    \<and> sends (snd (on_message rt w s addr rawData clients hb))
        = [(s, JSON_stringify rt (JObj [(js ''type'', JStr (js ''pong''))]))]
    \<and> infos (snd (on_message rt w s addr rawData clients hb)) = []
    \<and> (map_of (clientMap hb) s = Some e \<longrightarrow>
         map_of (clientMap (fst (on_message rt w s addr rawData clients hb))) s
           = Some (e\<lparr>isAlive := True\<rparr>))"
proof -
  have "on_message rt w s addr rawData clients hb = (markAlive s hb, reply_pong rt w s addr)"
    using assms
    by (simp add: on_message_def decode_Some is_app_ping_ping_message [unfolded ping_message_def])
  then show ?thesis
    by (simp add: reply_pong_def pong_message_def markAlive_def update_conv')
qed

text \<open>
  Socket 1, not alive since the firing at time 20, sends \<open>{"type":"ping"}\<close> while socket 2
  is connected: it is alive again and is the only socket sent anything, the text
  \<open>{"type":"pong"}\<close>.
\<close>

theorem app_ping_answered_not_broadcast_witness:
  \<open>JSON_parse sample_runtime (toString_utf8 sample_runtime plain_ping)
      = Some (JObj [(js ''type'', JStr (js ''ping''))])
   \<and> sends (snd (on_message sample_runtime quiet_world 1 (js ''10.0.0.7'') plain_ping [1, 2]
        (fst (heartbeat_tick \<lparr>interval = 20, timeout = 5\<rparr> quiet_world 20 one_client))))
       = [(1, js ''{"type":"pong"}'')]
   \<and> map_of (clientMap (fst (on_message sample_runtime quiet_world 1 (js ''10.0.0.7'')
        plain_ping [1, 2]
        (fst (heartbeat_tick \<lparr>interval = 20, timeout = 5\<rparr> quiet_world 20 one_client))))) 1
       = Some \<lparr>isAlive = True, lastPingSentAt = 20, ip = js ''10.0.0.7''\<rparr>\<close>
proof -
  have p: "JSON_parse sample_runtime (toString_utf8 sample_runtime plain_ping)
      = Some (JObj [(js ''type'', JStr (js ''ping''))])"
    using sample_decodes(1) by (simp add: ping_message_def)
  have e: \<open>JSON_stringify sample_runtime (JObj [(js ''type'', JStr (js ''pong''))])
      = js ''{"type":"pong"}''\<close>
    by (simp add: sample_runtime_def sample_stringify_def pong_message_def)
  have h: "fst (heartbeat_tick \<lparr>interval = 20, timeout = 5\<rparr> quiet_world 20 one_client)
      = \<lparr>clientMap = [(1, \<lparr>isAlive = False, lastPingSentAt = 20, ip = js ''10.0.0.7''\<rparr>)],
         timer = True\<rparr>"
    by (simp add: one_client_eq heartbeat_tick_def is_zombie_def)
  from app_ping_answered_not_broadcast [OF p, of quiet_world 1 "js ''10.0.0.7''" "[1, 2]"
      "fst (heartbeat_tick \<lparr>interval = 20, timeout = 5\<rparr> quiet_world 20 one_client)"
      "\<lparr>isAlive = False, lastPingSentAt = 20, ip = js ''10.0.0.7''\<rparr>"]
  show ?thesis
    unfolding e using p by (simp add: h markAlive_def)
qed

text \<open>
  Claim C2, as the code has it. A payload that decodes to a JSON value is handed unchanged
  to the relay, which sends its canonical encoding to every open client other than the
  sender, unless the value is an object whose \<open>type\<close> property is the string \<open>ping\<close>; such
  an object is answered as a liveness probe and not broadcast, whether or not it has other
  properties.
\<close>

theorem structured_message_dispatch:
  assumes "JSON_parse rt (toString_utf8 rt rawData) = Some v"
  shows "(\<not> is_app_ping v \<longrightarrow>
        on_message rt w s addr rawData clients hb = (hb, broadcast rt w s addr rawData clients)
        \<and> sends (snd (on_message rt w s addr rawData clients hb))
            = map (\<lambda>c. (c, JSON_stringify rt v))
                (filter (\<lambda>c. c \<noteq> s \<and> readyState w c = OPEN) clients))
    \<and> (is_app_ping v \<longrightarrow>
        on_message rt w s addr rawData clients hb = (markAlive s hb, reply_pong rt w s addr)
        \<and> sends (snd (on_message rt w s addr rawData clients hb))
            = [(s, JSON_stringify rt pong_message)])
    \<and> (is_app_ping v \<longleftrightarrow>
          (\<exists>kvs. v = JObj kvs \<and> map_of kvs (js ''type'') = Some (JStr (js ''ping''))))"
  using assms
  by (simp add: on_message_def decode_Some broadcast_sends outgoing_of_def sends_reply_pong
      is_app_ping_iff [symmetric])

text \<open>
  Socket 1 sends \<open>{ "type" : "chat" }\<close>; socket 2 is sent the canonical encoding
  \<open>{"type":"chat"}\<close>.
\<close>

theorem structured_message_dispatch_witness:
  \<open>JSON_parse sample_runtime (toString_utf8 sample_runtime chat_message)
      = Some (JObj [(js ''type'', JStr (js ''chat''))])
   \<and> \<not> is_app_ping (JObj [(js ''type'', JStr (js ''chat''))])
   \<and> sends (snd (on_message sample_runtime quiet_world 1 (js ''10.0.0.7'') chat_message [1, 2]
        one_client))
       = [(2, js ''{"type":"chat"}'')]\<close>
proof -
  have n: "\<not> is_app_ping (JObj [(js ''type'', JStr (js ''chat''))])"
    by (simp add: is_app_ping_def js_def)
  have e: \<open>JSON_stringify sample_runtime (JObj [(js ''type'', JStr (js ''chat''))])
      = js ''{"type":"chat"}''\<close>
    by (simp add: sample_runtime_def sample_stringify_def pong_message_def ping_message_def
        js_def)
  from n structured_message_dispatch [OF sample_decodes(3), of quiet_world 1
      "js ''10.0.0.7''" "[1, 2]" one_client]
  have "sends (snd (on_message sample_runtime quiet_world 1 (js ''10.0.0.7'') chat_message
          [1, 2] one_client))
      = map (\<lambda>c. (c, JSON_stringify sample_runtime (JObj [(js ''type'', JStr (js ''chat''))])))
          (filter (\<lambda>c. c \<noteq> 1 \<and> readyState quiet_world c = OPEN) [1, 2])"
    by blast
  also have \<open>\<dots> = [(2, js ''{"type":"chat"}'')]\<close>
    unfolding e by (simp add: quiet_world_def)
  finally show ?thesis
    using n sample_decodes(3) by blast
qed

text \<open>
  Claim C2 as the specification states it fails: socket 1 sends
  \<open>{"type":"ping","seq":1}\<close>, which decodes to an object with two properties and so is not
  the reserved probe \<open>{"type":"ping"}\<close>; the handler answers with \<open>{"type":"pong"}\<close> and
  sends nothing to socket 2.
\<close>

theorem ping_with_fields_counterexample:
  \<open>JSON_parse sample_runtime (toString_utf8 sample_runtime ping_with_seq)
      = Some (JObj [(js ''type'', JStr (js ''ping'')), (js ''seq'', JNum 1)])
   \<and> JObj [(js ''type'', JStr (js ''ping'')), (js ''seq'', JNum 1)] \<noteq> ping_message
   \<and> snd (on_message sample_runtime quiet_world 1 (js ''10.0.0.7'') ping_with_seq [1, 2]
        one_client)
       = [Send 1 (js ''{"type":"pong"}'')]\<close>
  by (simp add: on_message_def is_app_ping_def reply_pong_def quiet_world_def
      sample_stringify_def decode_def sample_runtime_def ascii_toString_def ascii_bytes_def
      js_def sample_parse_def ping_message_def pong_message_def ping_with_seq_def)

section \<open>Properties of the listeners and of start-up\<close>

lemma startup_rejected:
  "loadConfig file files = None \<Longrightarrow>
   exit_code (startup file files) = Some 1 \<and> servers (startup file files) = []"
  by (simp add: startup_def)

lemma startup_groups:
  "loadConfig file files = Some cfg \<Longrightarrow>
   servers (startup file files) =
     (if ws_enabled cfg then [new_group WS (ws_host cfg) (ws_port cfg)] else [])
     @ (if wss_enabled cfg \<and> cert_readable files \<and> key_readable files
        then [new_group WSS (wss_host cfg) (wss_port cfg)] else [])"
  by (simp add: startup_def start_ws_def start_wss_def Let_def)

lemma startup_exit:
  "loadConfig file files = Some cfg \<Longrightarrow>
   exit_code (startup file files) =
     (if wss_enabled cfg \<and> \<not> (cert_readable files \<and> key_readable files) \<and> \<not> ws_enabled cfg
      then Some 1 else None)"
  by (simp add: startup_def start_ws_def start_wss_def Let_def)

lemma startup_listeners:
  "list_all (\<lambda>g. httpServers g \<noteq> []) (servers (startup file files))"
proof (cases "loadConfig file files")
  case None
  then show ?thesis by (simp add: startup_rejected)
next
  case (Some cfg)
  then show ?thesis
    by (simp add: startup_groups new_group_def startListeners_def Let_def)
qed

lemma startup_upgrade_targets:
  "list_all (\<lambda>g. list_all (\<lambda>srv. upgrade_to srv = label g) (httpServers g))
     (servers (startup file files))"
proof (cases "loadConfig file files")
  case None
  then show ?thesis by (simp add: startup_rejected)
next
  case (Some cfg)
  then show ?thesis
    by (simp add: startup_groups new_group_def startListeners_def Let_def)
qed

lemma loadConfig_missing_tls:
  "wss_enabled cfg \<Longrightarrow> \<not> (cert_exists files \<and> key_exists files) \<Longrightarrow>
   loadConfig (Some cfg) files = None"
  by (auto simp: loadConfig_def)

lemma loadConfig_Some: "loadConfig file files = Some cfg \<Longrightarrow> file = Some cfg"
  by (auto simp: loadConfig_def split: option.splits if_splits)

lemma on_upgrade_cong:
  "upgrade_to srv = upgrade_to srv' \<Longrightarrow>
   on_upgrade srv s addr now st = on_upgrade srv' s addr now st"
  by (simp add: on_upgrade_def)

text \<open>
  Claim C7, as the code has it. \<open>startListeners\<close> always makes the listener on the
  configured host and port, and makes a second one on \<open>127.0.0.1\<close> and the same port if and
  only if the configured host is none of the strings \<open>0.0.0.0\<close>, \<open>127.0.0.1\<close> and \<open>::1\<close>;
  so host \<open>192.168.1.10\<close> gives two listeners and host \<open>0.0.0.0\<close> gives one. Every listener
  hands its upgrades to the same \<open>WebSocket.Server\<close>, so that an upgrade has the same effect
  on the clients and on the heartbeat manager of the group whichever listener it reaches.
\<close>

theorem loopback_listener_rule:
  "bound_addresses (startListeners host port wsServer) =
     (if host \<in> {js ''0.0.0.0'', js ''127.0.0.1'', js ''::1''} then [(host, port)]
      else [(host, port), (js ''127.0.0.1'', port)])
   \<and> list_all (\<lambda>srv. upgrade_to srv = wsServer) (startListeners host port wsServer)
   \<and> list_all (\<lambda>srv. on_upgrade srv s addr now st
          = on_upgrade (hd (startListeners host port wsServer)) s addr now st)
        (startListeners host port wsServer)
   \<and> bound_addresses (startListeners (js ''192.168.1.10'') port wsServer)
       = [(js ''192.168.1.10'', port), (js ''127.0.0.1'', port)]
   \<and> bound_addresses (startListeners (js ''0.0.0.0'') port wsServer) = [(js ''0.0.0.0'', port)]"
proof -
  have same: "list_all (\<lambda>srv. upgrade_to srv = wsServer) (startListeners host port wsServer)"
    by (simp add: startListeners_def Let_def)
  have first: "upgrade_to (hd (startListeners host port wsServer)) = wsServer"
    by (simp add: startListeners_def Let_def)
  have "on_upgrade srv s addr now st
      = on_upgrade (hd (startListeners host port wsServer)) s addr now st"
    if "srv \<in> set (startListeners host port wsServer)" for srv
  proof (rule on_upgrade_cong)
    from same that have "upgrade_to srv = wsServer"
      by (simp add: list_all_iff)
    with first show "upgrade_to srv = upgrade_to (hd (startListeners host port wsServer))"
      by simp
  qed
  then have "list_all (\<lambda>srv. on_upgrade srv s addr now st
      = on_upgrade (hd (startListeners host port wsServer)) s addr now st)
    (startListeners host port wsServer)"
    unfolding list_all_iff by blast
  moreover note same
  moreover have "bound_addresses (startListeners (js ''192.168.1.10'') port wsServer)
       = [(js ''192.168.1.10'', port), (js ''127.0.0.1'', port)]"
    by (simp add: bound_addresses_def startListeners_def needLoopback_def js_def)
  moreover have "bound_addresses (startListeners (js ''0.0.0.0'') port wsServer)
       = [(js ''0.0.0.0'', port)]"
    by (simp add: bound_addresses_def startListeners_def needLoopback_def)
  moreover have "bound_addresses (startListeners host port wsServer) =
     (if host \<in> {js ''0.0.0.0'', js ''127.0.0.1'', js ''::1''} then [(host, port)]
      else [(host, port), (js ''127.0.0.1'', port)])"
    by (simp add: bound_addresses_def startListeners_def needLoopback_def Let_def)
  ultimately show ?thesis
    by blast
qed

text \<open>
  The secure group of \<open>busy_process\<close> is configured on \<open>10.1.2.3\<close>, port 9000: socket 5
  becomes a client of the group and an entry of its registry through either listener.
\<close>

theorem loopback_listener_rule_witness:
  "bound_addresses (startListeners (js ''10.1.2.3'') 9000 WSS)
     = [(js ''10.1.2.3'', 9000), (js ''127.0.0.1'', 9000)]
   \<and> on_upgrade (startListeners (js ''10.1.2.3'') 9000 WSS ! 1) 5 (js ''10.0.0.9'') 77 busy_process
     = on_upgrade (startListeners (js ''10.1.2.3'') 9000 WSS ! 0) 5 (js ''10.0.0.9'') 77
         busy_process
   \<and> map wsClients (servers (on_upgrade (startListeners (js ''10.1.2.3'') 9000 WSS ! 1) 5
        (js ''10.0.0.9'') 77 busy_process)) = [[1, 2], [5]]"
proof -
  have l: "startListeners (js ''10.1.2.3'') 9000 WSS =
      [\<lparr>listen_host = js ''10.1.2.3'', listen_port = 9000, upgrade_to = WSS, is_primary = True\<rparr>,
       \<lparr>listen_host = js ''127.0.0.1'', listen_port = 9000, upgrade_to = WSS,
        is_primary = False\<rparr>]"
    by (simp add: startListeners_def needLoopback_def js_def)
  have c: "map wsClients (servers (on_upgrade
        \<lparr>listen_host = js ''127.0.0.1'', listen_port = 9000, upgrade_to = WSS, is_primary = False\<rparr>
        5 (js ''10.0.0.9'') 77 busy_process)) = [[1, 2], [5]]"
    by (simp add: on_upgrade_def busy_process_def new_group_def group_connection_def
        on_connection_def Let_def)
  from loopback_listener_rule [of "js ''10.1.2.3''" 9000 WSS 5 "js ''10.0.0.9''" 77
      busy_process]
  have "list_all (\<lambda>srv. on_upgrade srv 5 (js ''10.0.0.9'') 77 busy_process
      = on_upgrade (hd (startListeners (js ''10.1.2.3'') 9000 WSS)) 5 (js ''10.0.0.9'') 77
          busy_process)
    (startListeners (js ''10.1.2.3'') 9000 WSS)"
    by blast
  then show ?thesis
    using c by (simp add: l bound_addresses_def)
qed

text \<open>
  Claim C7 as the specification states it fails: \<open>127.0.0.2\<close> is a loopback address and
  \<open>::\<close> is the wildcard address of IPv6, and for both a second listener on \<open>127.0.0.1\<close> is
  made.
\<close>

theorem loopback_listener_counterexample:
  "bound_addresses (startListeners (js ''127.0.0.2'') 8070 WS)
     = [(js ''127.0.0.2'', 8070), (js ''127.0.0.1'', 8070)]
   \<and> bound_addresses (startListeners (js ''::'') 8070 WS)
     = [(js ''::'', 8070), (js ''127.0.0.1'', 8070)]"
  by (simp add: bound_addresses_def startListeners_def needLoopback_def js_def)

text \<open>
  Claim C3, as the code has it. When a listener fails to bind, its \<open>error\<close> handler logs
  one record (an error for the primary listener, a warning for the loopback listener) and
  nothing else: it makes no \<open>process.exit\<close> call, whether or not another group is active,
  and every group, the failing one included, stays as it was. Whether the lack of another
  protocol is fatal is decided for the TLS material instead. When both files were found as
  the configuration was loaded and one of them cannot be read as the secure group is
  started, the process exits with status 1 if the plain protocol is disabled, and otherwise
  the secure group is skipped and the plain group is started alone. When the secure protocol
  is enabled and one of the files is not found as the configuration is loaded, the process
  exits with status 1 whether or not the plain protocol is enabled.
\<close>

theorem bind_failure_only_logged:
  "exit_code (on_listen_error i srv st) = exit_code st
   \<and> servers (on_listen_error i srv st) = servers st
   \<and> (exit_code st = None \<and> i < length (servers st) \<longrightarrow>
        trace (on_listen_error i srv st) = trace st @
          [if is_primary srv
           then LogError (PrimaryListenerFailed (label (servers st ! i)) (listen_host srv)
                  (listen_port srv))
           else LogWarn (LoopbackListenerFailed (label (servers st ! i)) (listen_port srv))])
   \<and> (loadConfig file files = Some cfg \<and> wss_enabled cfg
        \<and> \<not> (cert_readable files \<and> key_readable files) \<longrightarrow>
        (if ws_enabled cfg
         then exit_code (startup file files) = None
           \<and> servers (startup file files) = [new_group WS (ws_host cfg) (ws_port cfg)]
         else exit_code (startup file files) = Some 1 \<and> servers (startup file files) = []))
   \<and> (wss_enabled cfg \<and> \<not> (cert_exists files \<and> key_exists files) \<longrightarrow>
        exit_code (startup (Some cfg) files) = Some 1 \<and> servers (startup (Some cfg) files) = [])"
proof -
  have "exit_code (startup (Some cfg) files) = Some 1 \<and> servers (startup (Some cfg) files) = []"
    if "wss_enabled cfg" "\<not> (cert_exists files \<and> key_exists files)"
    using that by (intro startup_rejected loadConfig_missing_tls)
  moreover have "if ws_enabled cfg
         then exit_code (startup file files) = None
           \<and> servers (startup file files) = [new_group WS (ws_host cfg) (ws_port cfg)]
         else exit_code (startup file files) = Some 1 \<and> servers (startup file files) = []"
    if "loadConfig file files = Some cfg" "wss_enabled cfg"
      "\<not> (cert_readable files \<and> key_readable files)"
    using that by (auto simp: startup_groups startup_exit)
  moreover have "exit_code (on_listen_error i srv st) = exit_code st
      \<and> servers (on_listen_error i srv st) = servers st
      \<and> (exit_code st = None \<and> i < length (servers st) \<longrightarrow>
        trace (on_listen_error i srv st) = trace st @
          [if is_primary srv
           then LogError (PrimaryListenerFailed (label (servers st ! i)) (listen_host srv)
                  (listen_port srv))
           else LogWarn (LoopbackListenerFailed (label (servers st ! i)) (listen_port srv))])"
    by (simp add: on_listen_error_def Let_def)
  ultimately show ?thesis
    by blast
qed

text \<open>
  With both protocols enabled and a key that cannot be read, only the plain group is
  started; when its primary listener then fails to bind, one more error is logged and no
  \<open>process.exit\<close> call is made. With the key not found as the configuration is loaded, the
  process exits with status 1.
\<close>

theorem bind_failure_only_logged_witness:
  "loadConfig (Some (ws_only\<lparr>wss_enabled := True\<rparr>)) unreadable_key
     = Some (ws_only\<lparr>wss_enabled := True\<rparr>)
   \<and> exit_code (startup (Some (ws_only\<lparr>wss_enabled := True\<rparr>)) unreadable_key) = None
   \<and> map label (servers (startup (Some (ws_only\<lparr>wss_enabled := True\<rparr>)) unreadable_key))
       = [WS]
   \<and> exit_code (on_listen_error 0
        \<lparr>listen_host = js ''0.0.0.0'', listen_port = 8070, upgrade_to = WS, is_primary = True\<rparr>
        (startup (Some (ws_only\<lparr>wss_enabled := True\<rparr>)) unreadable_key)) = None
   \<and> trace (on_listen_error 0
        \<lparr>listen_host = js ''0.0.0.0'', listen_port = 8070, upgrade_to = WS, is_primary = True\<rparr>
        (startup (Some (ws_only\<lparr>wss_enabled := True\<rparr>)) unreadable_key))
       = [LogInfo StartingUp, LogInfo LogFileIs, LogInfo (ProtocolsEnabled True True),
          LogInfo (MaxPayloadIs 10485760), LogError TlsReadFailed,
          LogError (PrimaryListenerFailed WS (js ''0.0.0.0'') 8070)]
   \<and> exit_code (startup (Some (ws_only\<lparr>wss_enabled := True\<rparr>))
        (unreadable_key\<lparr>key_exists := False\<rparr>)) = Some 1"
proof -
  have l: "loadConfig (Some (ws_only\<lparr>wss_enabled := True\<rparr>)) unreadable_key
      = Some (ws_only\<lparr>wss_enabled := True\<rparr>)"
    by (simp add: loadConfig_def ws_only_def unreadable_key_def)
  have s: "startup (Some (ws_only\<lparr>wss_enabled := True\<rparr>)) unreadable_key
      = \<lparr>servers = [new_group WS (js ''0.0.0.0'') 8070], exit_code = None, pendingCount = 0,
         force_exit_after = None,
         trace = [LogInfo StartingUp, LogInfo LogFileIs, LogInfo (ProtocolsEnabled True True),
                  LogInfo (MaxPayloadIs 10485760), LogError TlsReadFailed]\<rparr>"
    by (simp add: startup_def l start_ws_def start_wss_def)
      (simp add: ws_only_def unreadable_key_def)
  from bind_failure_only_logged [of 0
      "\<lparr>listen_host = js ''0.0.0.0'', listen_port = 8070, upgrade_to = WS, is_primary = True\<rparr>"
      "startup (Some (ws_only\<lparr>wss_enabled := True\<rparr>)) unreadable_key"
      "Some (ws_only\<lparr>wss_enabled := True\<rparr>)" unreadable_key "ws_only\<lparr>wss_enabled := True\<rparr>"]
    bind_failure_only_logged [of 0
      "\<lparr>listen_host = js ''0.0.0.0'', listen_port = 8070, upgrade_to = WS, is_primary = True\<rparr>"
      "startup (Some (ws_only\<lparr>wss_enabled := True\<rparr>)) unreadable_key"
      "Some (ws_only\<lparr>wss_enabled := True\<rparr>)" "unreadable_key\<lparr>key_exists := False\<rparr>"
      "ws_only\<lparr>wss_enabled := True\<rparr>"]
  show ?thesis
    using l by (simp add: s new_group_def)
qed

text \<open>
  Claim C3 as the specification states it fails: with the plain protocol alone enabled,
  the process has the single group WS, so that no other group is active; when the primary
  listener of that group fails to bind, the handler makes no \<open>process.exit\<close> call, where
  the claim has the process end with a failure, and the group stays on \<open>servers\<close>.
\<close>

theorem bind_failure_counterexample:
  "map label (servers (startup (Some ws_only) unreadable_key)) = [WS]
   \<and> httpServers (hd (servers (startup (Some ws_only) unreadable_key)))
       = [\<lparr>listen_host = js ''0.0.0.0'', listen_port = 8070, upgrade_to = WS,
           is_primary = True\<rparr>]
   \<and> exit_code (on_listen_error 0
        \<lparr>listen_host = js ''0.0.0.0'', listen_port = 8070, upgrade_to = WS, is_primary = True\<rparr>
        (startup (Some ws_only) unreadable_key)) = None
   \<and> map label (servers (on_listen_error 0
        \<lparr>listen_host = js ''0.0.0.0'', listen_port = 8070, upgrade_to = WS, is_primary = True\<rparr>
        (startup (Some ws_only) unreadable_key))) = [WS]"
proof -
  have l: "loadConfig (Some ws_only) unreadable_key = Some ws_only"
    by (simp add: loadConfig_def ws_only_def)
  show ?thesis
    by (simp add: startup_groups [OF l] startup_exit [OF l] on_listen_error_def)
      (simp add: ws_only_def new_group_def startListeners_def needLoopback_def)
qed

section \<open>Properties of the connections of a group\<close>

text \<open>
  Between two events every socket of the registry of a group is among the clients of its
  \<open>WebSocket.Server\<close>: a new group has an empty registry, and each event of a connection
  and each firing of the timer keeps the inclusion.
\<close>

lemma registry_new_group: "registry_within_clients (new_group p host port)"
  by (simp add: registry_within_clients_def new_group_def createHeartbeatManager_def)

lemma registry_group_connection:
  "registry_within_clients g \<Longrightarrow> registry_within_clients (fst (group_connection s addr now g))"
  by (auto simp: registry_within_clients_def group_connection_def on_connection_def
      register_def dom_update Let_def)

lemma keys_delete: "fst ` set (AList.delete s al) = fst ` set al - {s}"
  using delete_keys [of s al, THEN arg_cong, of set] by (simp add: image_set [symmetric] del: image_set)

lemma registry_group_close:
  "registry_within_clients g \<Longrightarrow> registry_within_clients (fst (group_close s addr g))"
  by (auto simp: registry_within_clients_def group_close_def on_close_def unregister_def
      keys_delete Let_def)

lemma registry_group_error:
  "registry_within_clients g \<Longrightarrow> registry_within_clients (fst (group_error s addr g))"
  by (auto simp: registry_within_clients_def group_error_def on_error_def unregister_def
      keys_delete)

lemma keys_markAlive: "fst ` set (clientMap (markAlive s hb)) = fst ` set (clientMap hb)"
proof (cases "map_of (clientMap hb) s")
  case None
  then show ?thesis by (simp add: markAlive_def)
next
  case (Some e)
  then have "s \<in> fst ` set (clientMap hb)"
    by (meson domI dom_map_of_conv_image_fst[THEN equalityD1, THEN subsetD])
  with Some show ?thesis
    by (auto simp: markAlive_def dom_update)
qed

lemma registry_group_message:
  "registry_within_clients g \<Longrightarrow>
   registry_within_clients (fst (group_message rt w s addr rawData g))"
  by (simp add: registry_within_clients_def group_message_def on_message_def keys_markAlive)

lemma keys_fire_timer:
  "k \<in> fst ` set (clientMap (fst (fire_timer cfg w now hb))) \<Longrightarrow>
   k \<in> fst ` set (clientMap hb)"
  by (cases "timer hb")
    (simp_all add: fire_timer_def clientMap_heartbeat_tick sweep_keys_subset)

lemma registry_group_tick:
  assumes "registry_within_clients g"
  shows "registry_within_clients (fst (group_tick cfg w now g))"
proof -
  have "hbMgr (fst (group_tick cfg w now g)) = fst (fire_timer cfg w now (hbMgr g))"
    and "wsClients (fst (group_tick cfg w now g)) = wsClients g"
    by (simp_all add: group_tick_def split_beta)
  moreover have "fst ` set (clientMap (fst (fire_timer cfg w now (hbMgr g))))
      \<subseteq> fst ` set (clientMap (hbMgr g))"
    using keys_fire_timer [of _ cfg w now "hbMgr g"] by blast
  ultimately show ?thesis
    using assms unfolding registry_within_clients_def by simp
qed

section \<open>Properties of graceful shutdown\<close>

lemma filter_update_same:
  "i < length xs \<Longrightarrow> P (xs ! i) \<Longrightarrow> P y \<Longrightarrow>
   length (filter P (xs[i := y])) = length (filter P xs)"
proof (induction xs arbitrary: i)
  case Nil
  then show ?case by simp
next
  case (Cons x xs)
  then show ?case by (cases i) simp_all
qed

lemma filter_update_drop:
  "i < length xs \<Longrightarrow> P (xs ! i) \<Longrightarrow> \<not> P y \<Longrightarrow>
   Suc (length (filter P (xs[i := y]))) = length (filter P xs)"
proof (induction xs arbitrary: i)
  case Nil
  then show ?case by simp
next
  case (Cons x xs)
  then show ?case by (cases i) simp_all
qed

lemma list_all_update:
  "list_all P xs \<Longrightarrow> P y \<Longrightarrow> list_all P (xs[i := y])"
  by (auto simp: list_all_iff dest: set_update_subset_insert [THEN subsetD])

lemma closing_nth:
  "list_all closing_group xs \<Longrightarrow> i < length xs \<Longrightarrow> closing_group (xs ! i)"
  by (simp add: list_all_length)

lemma shutting_down_start:
  assumes "exit_code st = None" and "servers st \<noteq> []"
    and "list_all (\<lambda>g. httpServers g \<noteq> []) (servers st)"
  shows "shutting_down (gracefulShutdown sig st)"
proof -
  have "filter (\<lambda>g. phase g \<noteq> Closed) (map shutdown_group (servers st))
      = map shutdown_group (servers st)"
    by (simp add: filter_id_conv shutdown_group_def)
  then have "open_groups (gracefulShutdown sig st) = length (servers st)"
    using assms(1,2) by (simp add: open_groups_def gracefulShutdown_def)
  moreover have "list_all closing_group (map shutdown_group (servers st))"
    using assms(3) by (simp add: list_all_iff closing_group_def shutdown_group_def stop_def)
  ultimately show ?thesis
    using assms(1,2) by (simp add: shutting_down_def gracefulShutdown_def)
qed

lemma shutting_down_ws_closed:
  assumes "shutting_down st"
  shows "shutting_down (ws_closed i st)"
proof (cases "exit_code st = None \<and> i < length (servers st)
    \<and> phase (servers st ! i) = WsClosing")
  case False
  then show ?thesis
    using assms by (auto simp: ws_closed_def Let_def split: phase.splits)
next
  case True
  let ?g = "servers st ! i"
  let ?g' = "?g\<lparr>phase := HttpClosing (length (httpServers ?g))\<rparr>"
  from assms True have cg: "closing_group ?g"
    by (simp add: shutting_down_def closing_nth)
  then have cg': "closing_group ?g'"
    by (simp add: closing_group_def)
  have eq: "ws_closed i st = st\<lparr>servers := (servers st)[i := ?g']\<rparr>"
    using True by (simp add: ws_closed_def Let_def)
  have cnt: "open_groups (ws_closed i st) = open_groups st"
    unfolding eq open_groups_def using True
    by (simp add: filter_update_same [where P = "\<lambda>g. phase g \<noteq> Closed"])
  show ?thesis
    using assms cg' cnt unfolding shutting_down_def
    by (simp add: eq list_all_update)
qed

lemma shutting_down_http_closed:
  assumes "shutting_down st"
  shows "shutting_down (http_closed i st)"
proof (cases "exit_code st = None \<and> i < length (servers st)")
  case False
  then show ?thesis
    using assms by (auto simp: http_closed_def Let_def)
next
  case True
  let ?g = "servers st ! i"
  from assms True have cg: "closing_group ?g"
    by (simp add: shutting_down_def closing_nth)
  show ?thesis
  proof (cases "phase ?g")
    case (HttpClosing n)
    with cg obtain k where n: "n = Suc k"
      by (cases n) (simp_all add: closing_group_def)
    show ?thesis
    proof (cases k)
      case 0
      let ?srvs = "(servers st)[i := ?g\<lparr>phase := Closed\<rparr>]"
      have cnt: "Suc (length (filter (\<lambda>g. phase g \<noteq> Closed) ?srvs)) = open_groups st"
        unfolding open_groups_def using True HttpClosing
        by (simp add: filter_update_drop [where P = "\<lambda>g. phase g \<noteq> Closed"])
      have cg': "closing_group (?g\<lparr>phase := Closed\<rparr>)"
        using cg by (simp add: closing_group_def)
      have all: "list_all closing_group ?srvs"
        using assms cg' by (simp add: shutting_down_def list_all_update)
      from assms True have pc: "pendingCount st = int (open_groups st)"
        by (simp add: shutting_down_def)
      show ?thesis
        using True HttpClosing n 0 assms all cnt pc
        by (auto simp: http_closed_def Let_def shutting_down_def open_groups_def)
    next
      case (Suc m)
      let ?g' = "?g\<lparr>phase := HttpClosing k\<rparr>"
      have eq: "http_closed i st = st\<lparr>servers := (servers st)[i := ?g']\<rparr>"
        using True HttpClosing n Suc by (simp add: http_closed_def Let_def)
      have cg': "closing_group ?g'"
        using cg Suc by (simp add: closing_group_def)
      have cnt: "open_groups (http_closed i st) = open_groups st"
        unfolding eq open_groups_def using True HttpClosing
        by (simp add: filter_update_same [where P = "\<lambda>g. phase g \<noteq> Closed"])
      show ?thesis
        using assms cg' cnt unfolding shutting_down_def
        by (simp add: eq list_all_update)
    qed
  qed (use True assms in \<open>simp_all add: http_closed_def Let_def\<close>)
qed

lemma shutting_down_run:
  "shutting_down st \<Longrightarrow> shutting_down (run_closes evs st)"
  unfolding run_closes_def
proof (induction evs arbitrary: st)
  case Nil
  then show ?case by simp
next
  case (Cons ev evs)
  then show ?case
    by (cases ev) (simp_all add: shutting_down_ws_closed shutting_down_http_closed)
qed

lemma open_groups_zero: "open_groups st = 0 \<longleftrightarrow> all_closed st"
  by (auto simp: open_groups_def all_closed_def list_all_iff filter_empty_conv)

lemma shutting_down_exit:
  assumes "shutting_down st"
  shows "exit_code st = (if all_closed st then Some 0 else None)"
    and "exit_code (force_exit st) = (if all_closed st then Some 0 else Some 1)"
  using assms
  by (auto simp: shutting_down_def force_exit_def open_groups_zero [symmetric] split: if_splits)

lemma shutdown_terminates:
  assumes "exit_code st = None" and "g \<in> set (servers st)" and "c \<in> set (wsClients g)"
  shows "Terminate c \<in> set (trace (gracefulShutdown sig st))"
proof -
  from assms(2) have "servers st \<noteq> []" by auto
  with assms show ?thesis
    by (auto simp: gracefulShutdown_def)
qed

lemma closing_timer: "list_all closing_group gs \<Longrightarrow> list_all (\<lambda>g. \<not> timer (hbMgr g)) gs"
  by (simp add: list_all_iff closing_group_def)

lemma run_closes_append: "run_closes (xs @ ys) st = run_closes ys (run_closes xs st)"
  by (simp add: run_closes_def)

lemma run_closes_Cons: "run_closes (x # xs) st = run_closes xs (deliver x st)"
  by (simp add: run_closes_def)

lemma running_while_open:
  assumes "shutting_down st" and "i < length (servers st)" and "phase (servers st ! i) \<noteq> Closed"
  shows "exit_code st = None"
proof -
  from assms(2,3) have "\<not> all_closed st"
    by (auto simp: all_closed_def list_all_length)
  with shutting_down_exit(1) [OF assms(1)] show ?thesis by simp
qed

lemma ws_closed_phases:
  assumes "shutting_down st" and "i < length (servers st)"
    and "phase (servers st ! i) = WsClosing"
  shows "map phase (servers (ws_closed i st))
      = (map phase (servers st))[i := HttpClosing (length (httpServers (servers st ! i)))]"
    and "map httpServers (servers (ws_closed i st)) = map httpServers (servers st)"
proof -
  have "exit_code st = None"
    by (rule running_while_open [of st i]) (use assms in simp_all)
  with assms(2,3) have eq: "ws_closed i st = st\<lparr>servers := (servers st)
      [i := (servers st ! i)\<lparr>phase := HttpClosing (length (httpServers (servers st ! i)))\<rparr>]\<rparr>"
    by (simp add: ws_closed_def Let_def)
  show "map phase (servers (ws_closed i st))
      = (map phase (servers st))[i := HttpClosing (length (httpServers (servers st ! i)))]"
    unfolding eq by (simp add: map_update)
  show "map httpServers (servers (ws_closed i st)) = map httpServers (servers st)"
    unfolding eq using assms(2) by (simp add: map_update list_update_same_conv)
qed

lemma http_closed_phases:
  assumes "shutting_down st" and "i < length (servers st)"
    and "phase (servers st ! i) = HttpClosing (Suc k)"
  shows "map phase (servers (http_closed i st))
      = (map phase (servers st))[i := (if k = 0 then Closed else HttpClosing k)]"
    and "map httpServers (servers (http_closed i st)) = map httpServers (servers st)"
proof -
  have ex: "exit_code st = None"
    by (rule running_while_open [of st i]) (use assms in simp_all)
  have "servers (http_closed i st) = (servers st)
      [i := (servers st ! i)\<lparr>phase := (if k = 0 then Closed else HttpClosing k)\<rparr>]"
    using ex assms(2,3) by (simp add: http_closed_def Let_def)
  then show "map phase (servers (http_closed i st))
      = (map phase (servers st))[i := (if k = 0 then Closed else HttpClosing k)]"
    and "map httpServers (servers (http_closed i st)) = map httpServers (servers st)"
    using assms(2) by (simp_all add: map_update list_update_same_conv)
qed

lemma http_callbacks_close:
  assumes "shutting_down st" and "i < length (servers st)"
    and "phase (servers st ! i) = HttpClosing (Suc k)"
  shows "map phase (servers (run_closes (replicate (Suc k) (HttpClosed i)) st))
      = (map phase (servers st))[i := Closed]
    \<and> map httpServers (servers (run_closes (replicate (Suc k) (HttpClosed i)) st))
      = map httpServers (servers st)"
  using assms
proof (induction k arbitrary: st)
  case 0
  from http_closed_phases [OF 0] show ?case
    by (simp add: run_closes_def)
next
  case (Suc k)
  let ?st = "http_closed i st"
  note p = http_closed_phases [OF Suc.prems]
  have sd: "shutting_down ?st"
    using Suc.prems(1) by (rule shutting_down_http_closed)
  have len: "i < length (servers ?st)"
    using p(1) Suc.prems(2) by (metis length_list_update length_map)
  have ph: "phase (servers ?st ! i) = HttpClosing (Suc k)"
  proof -
    have "map phase (servers ?st) ! i = HttpClosing (Suc k)"
      using p(1) Suc.prems(2) by simp
    with len show ?thesis by simp
  qed
  from Suc.IH [OF sd len ph] p show ?case
    by (simp add: run_closes_Cons)
qed

lemma group_callbacks_close:
  assumes "shutting_down st" and "i < length (servers st)"
    and "phase (servers st ! i) = WsClosing"
    and "map httpServers (servers st) = map httpServers gs"
  shows "shutting_down (run_closes (callbacks_of gs i) st)"
    and "map phase (servers (run_closes (callbacks_of gs i) st))
      = (map phase (servers st))[i := Closed]"
    and "map httpServers (servers (run_closes (callbacks_of gs i) st)) = map httpServers gs"
proof -
  let ?st = "ws_closed i st"
  let ?m = "length (httpServers (servers st ! i))"
  note p = ws_closed_phases [OF assms(1-3)]
  from assms(1,2) have "closing_group (servers st ! i)"
    by (simp add: shutting_down_def closing_nth)
  then obtain k where m: "?m = Suc k"
    by (cases ?m) (simp_all add: closing_group_def)
  have same: "length (httpServers (gs ! i)) = ?m"
  proof -
    have "map httpServers (servers st) ! i = map httpServers gs ! i"
      by (simp add: assms(4))
    moreover have "i < length gs"
      using assms(2,4) by (metis length_map)
    ultimately show ?thesis
      using assms(2) by simp
  qed
  have sd: "shutting_down ?st"
    using assms(1) by (rule shutting_down_ws_closed)
  have len: "i < length (servers ?st)"
    using p(1) assms(2) by (metis length_list_update length_map)
  have ph: "phase (servers ?st ! i) = HttpClosing (Suc k)"
  proof -
    have "map phase (servers ?st) ! i = HttpClosing (Suc k)"
      using p(1) assms(2) m by simp
    with len show ?thesis by simp
  qed
  have run: "run_closes (callbacks_of gs i) st = run_closes (replicate (Suc k) (HttpClosed i)) ?st"
    by (simp add: callbacks_of_def same m run_closes_def)
  show "shutting_down (run_closes (callbacks_of gs i) st)"
    unfolding run using sd by (rule shutting_down_run)
  from http_callbacks_close [OF sd len ph] p assms(4)
  show "map phase (servers (run_closes (callbacks_of gs i) st))
      = (map phase (servers st))[i := Closed]"
    and "map httpServers (servers (run_closes (callbacks_of gs i) st)) = map httpServers gs"
    unfolding run by simp_all
qed

lemma closed_prefix_grows:
  "k < n \<Longrightarrow>
   (replicate k Closed @ replicate (n - k) WsClosing)[k := Closed]
     = replicate (Suc k) Closed @ replicate (n - Suc k) WsClosing"
  by (cases "n - k") (simp_all add: list_update_append replicate_app_Cons_same Suc_diff_Suc)

lemma remaining_callbacks_close:
  assumes "shutting_down st" and "map httpServers (servers st) = map httpServers gs"
    and "map phase (servers st) = replicate k Closed @ replicate (length gs - k) WsClosing"
    and "k \<le> length gs"
  shows "all_closed (run_closes (concat (map (callbacks_of gs) [k..<length gs])) st)"
  using assms
proof (induction "length gs - k" arbitrary: k st)
  case 0
  then have "map phase (servers st) = replicate k Closed"
    by simp
  then have "\<forall>g \<in> set (servers st). phase g = Closed"
    by (metis (no_types, lifting) image_eqI in_set_replicate list.set_map)
  then show ?case
    using 0 by (simp add: all_closed_def list_all_iff run_closes_def)
next
  case (Suc d)
  then have lt: "k < length gs" by simp
  have len: "k < length (servers st)"
    using lt Suc.prems(2) by (metis length_map)
  have ph: "phase (servers st ! k) = WsClosing"
  proof -
    have "map phase (servers st) ! k = WsClosing"
      using lt by (simp add: Suc.prems(3) nth_append)
    with len show ?thesis by simp
  qed
  note g = group_callbacks_close [OF Suc.prems(1) len ph Suc.prems(2)]
  have "all_closed (run_closes (concat (map (callbacks_of gs) [Suc k..<length gs]))
      (run_closes (callbacks_of gs k) st))"
  proof (rule Suc.hyps(1))
    show "d = length gs - Suc k" using Suc.hyps(2) by simp
    show "shutting_down (run_closes (callbacks_of gs k) st)" by (rule g(1))
    show "map httpServers (servers (run_closes (callbacks_of gs k) st)) = map httpServers gs"
      by (rule g(3))
    show "map phase (servers (run_closes (callbacks_of gs k) st))
        = replicate (Suc k) Closed @ replicate (length gs - Suc k) WsClosing"
      unfolding g(2) Suc.prems(3) using lt by (rule closed_prefix_grows)
    show "Suc k \<le> length gs" using lt by simp
  qed
  then show ?case
    using lt by (simp add: upt_conv_Cons run_closes_append)
qed

lemma all_callbacks_exit_zero:
  assumes "exit_code st = None" and "servers st \<noteq> []"
    and "list_all (\<lambda>g. httpServers g \<noteq> []) (servers st)"
  shows "all_closed (run_closes (all_callbacks (servers st)) (gracefulShutdown sig st))"
    and "exit_code (run_closes (all_callbacks (servers st)) (gracefulShutdown sig st)) = Some 0"
proof -
  have sd: "shutting_down (gracefulShutdown sig st)"
    using assms by (rule shutting_down_start)
  have hs: "map httpServers (servers (gracefulShutdown sig st)) = map httpServers (servers st)"
    using assms(1,2) by (simp add: gracefulShutdown_def shutdown_group_def comp_def)
  have ps: "map phase (servers (gracefulShutdown sig st))
      = replicate 0 Closed @ replicate (length (servers st) - 0) WsClosing"
    using assms(1,2)
    by (simp add: gracefulShutdown_def shutdown_group_def comp_def map_replicate_const)
  from remaining_callbacks_close [OF sd hs ps]
  show a: "all_closed (run_closes (all_callbacks (servers st)) (gracefulShutdown sig st))"
    by (simp add: all_callbacks_def)
  have "shutting_down (run_closes (all_callbacks (servers st)) (gracefulShutdown sig st))"
    using sd by (rule shutting_down_run)
  from shutting_down_exit(1) [OF this] a
  show "exit_code (run_closes (all_callbacks (servers st)) (gracefulShutdown sig st)) = Some 0"
    by simp
qed

lemma busy_process_eq:
  "busy_process =
     \<lparr>servers =
        [\<lparr>label = WS,
          httpServers =
            [\<lparr>listen_host = js ''192.168.1.10'', listen_port = 8070, upgrade_to = WS,
              is_primary = True\<rparr>,
             \<lparr>listen_host = js ''127.0.0.1'', listen_port = 8070, upgrade_to = WS,
              is_primary = False\<rparr>],
          wsClients = [1, 2],
          hbMgr = \<lparr>clientMap =
                     [(1, \<lparr>isAlive = True, lastPingSentAt = 0, ip = js ''10.0.0.7''\<rparr>)],
                   timer = True\<rparr>,
          phase = Serving\<rparr>,
         \<lparr>label = WSS,
          httpServers =
            [\<lparr>listen_host = js ''0.0.0.0'', listen_port = 8071, upgrade_to = WSS,
              is_primary = True\<rparr>],
          wsClients = [], hbMgr = \<lparr>clientMap = [], timer = False\<rparr>,
          phase = Serving\<rparr>],
      exit_code = None, pendingCount = 0, force_exit_after = None, trace = []\<rparr>"
  by (simp add: busy_process_def new_group_def startListeners_def needLoopback_def
      one_client_eq createHeartbeatManager_def js_def)

lemma nth_phase_update:
  assumes "map phase (servers s') = (map phase (servers s))[i := X]" and "j < length (servers s)"
  shows "phase (servers s' ! j) = (if j = i then X else phase (servers s ! j))"
proof -
  have len: "length (servers s') = length (servers s)"
    using assms(1) by (metis length_list_update length_map)
  have "map phase (servers s') ! j = ((map phase (servers s))[i := X]) ! j"
    by (simp add: assms(1))
  with len assms(2) show ?thesis
    by (simp add: nth_list_update)
qed

lemma tracks_length: "tracks gs past s \<Longrightarrow> length (servers s) = length gs"
  unfolding tracks_def by (metis length_map)

lemma tracks_http_count:
  assumes "tracks gs past s" and "i < length gs"
  shows "length (httpServers (servers s ! i)) = length (httpServers (gs ! i))"
    and "0 < length (httpServers (gs ! i))"
proof -
  have len: "i < length (servers s)"
    using assms tracks_length by simp
  have "map httpServers (servers s) ! i = map httpServers gs ! i"
    using assms(1) by (simp add: tracks_def)
  with len assms(2) have eq: "httpServers (servers s ! i) = httpServers (gs ! i)"
    by simp
  then show "length (httpServers (servers s ! i)) = length (httpServers (gs ! i))"
    by simp
  from assms(1) len have "closing_group (servers s ! i)"
    by (simp add: tracks_def shutting_down_def closing_nth)
  with eq show "0 < length (httpServers (gs ! i))"
    by (simp add: closing_group_def)
qed

lemma tracks_ws_closed:
  assumes "tracks gs past s" and "i < length gs" and "WsClosed i \<notin> set past"
  shows "tracks gs (past @ [WsClosed i]) (ws_closed i s)"
proof -
  have sd: "shutting_down s" and ord: "orderly gs past"
    and hs: "map httpServers (servers s) = map httpServers gs"
    and ph: "\<forall>j < length gs. phase (servers s ! j) = phase_after gs past j"
    using assms(1) by (simp_all add: tracks_def)
  have len: "i < length (servers s)"
    using assms(1,2) tracks_length by simp
  have wc: "phase (servers s ! i) = WsClosing"
    using ph assms(2,3) by (simp add: phase_after_def)
  note p = ws_closed_phases [OF sd len wc]
  note n = tracks_http_count [OF assms(1,2)]
  from ord assms(3) have zero: "count_list past (HttpClosed i) = 0"
    by (simp add: orderly_def)
  have "phase (servers (ws_closed i s) ! j) = phase_after gs (past @ [WsClosed i]) j"
    if "j < length gs" for j
  proof -
    have "j < length (servers s)"
      using that assms(1) tracks_length by simp
    from nth_phase_update [OF p(1) this] ph that n zero show ?thesis
      by (auto simp: phase_after_def)
  qed
  moreover have "orderly gs (past @ [WsClosed i])"
    using ord by (auto simp: orderly_def)
  ultimately show ?thesis
    using sd p(2) hs by (simp add: tracks_def shutting_down_ws_closed)
qed

lemma tracks_http_closed:
  assumes "tracks gs past s" and "i < length gs" and "WsClosed i \<in> set past"
    and "count_list past (HttpClosed i) < length (httpServers (gs ! i))"
  shows "tracks gs (past @ [HttpClosed i]) (http_closed i s)"
proof -
  have sd: "shutting_down s" and ord: "orderly gs past"
    and hs: "map httpServers (servers s) = map httpServers gs"
    and ph: "\<forall>j < length gs. phase (servers s ! j) = phase_after gs past j"
    using assms(1) by (simp_all add: tracks_def)
  have len: "i < length (servers s)"
    using assms(1,2) tracks_length by simp
  obtain k where k: "length (httpServers (gs ! i)) - count_list past (HttpClosed i) = Suc k"
    using assms(4) by (metis Suc_diff_Suc)
  have hc: "phase (servers s ! i) = HttpClosing (Suc k)"
    using ph assms(2-4) k by (simp add: phase_after_def)
  note p = http_closed_phases [OF sd len hc]
  have "phase (servers (http_closed i s) ! j) = phase_after gs (past @ [HttpClosed i]) j"
    if "j < length gs" for j
  proof -
    have "j < length (servers s)"
      using that assms(1) tracks_length by simp
    from nth_phase_update [OF p(1) this] ph that k assms(3,4) show ?thesis
      by (auto simp: phase_after_def)
  qed
  moreover have "orderly gs (past @ [HttpClosed i])"
    using ord assms(3,4) by (auto simp: orderly_def)
  ultimately show ?thesis
    using sd p(2) hs by (simp add: tracks_def shutting_down_http_closed)
qed

lemma tracks_run:
  "tracks gs past s \<Longrightarrow> deliverable gs past evs \<Longrightarrow>
   tracks gs (past @ evs) (run_closes evs s)"
proof (induction evs arbitrary: past s)
  case Nil
  then show ?case by (simp add: run_closes_def)
next
  case (Cons ev evs)
  show ?case
  proof (cases ev)
    case (WsClosed i)
    with Cons.prems have "tracks gs (past @ [WsClosed i]) (ws_closed i s)"
      by (intro tracks_ws_closed) simp_all
    from Cons.IH [OF this] Cons.prems(2) WsClosed show ?thesis
      by (simp add: run_closes_Cons)
  next
    case (HttpClosed i)
    with Cons.prems have "tracks gs (past @ [HttpClosed i]) (http_closed i s)"
      by (intro tracks_http_closed) simp_all
    from Cons.IH [OF this] Cons.prems(2) HttpClosed show ?thesis
      by (simp add: run_closes_Cons)
  qed
qed

lemma tracks_all_closed:
  assumes "tracks gs past s"
  shows "all_closed s = all_have_closed gs past"
proof -
  have len: "length (servers s) = length gs"
    using assms by (rule tracks_length)
  have ph: "\<forall>j < length gs. phase (servers s ! j) = phase_after gs past j"
    using assms by (simp add: tracks_def)
  have "all_closed s = (\<forall>j < length gs. phase (servers s ! j) = Closed)"
    by (simp add: all_closed_def list_all_length len)
  also have "\<dots> = (\<forall>j < length gs. phase_after gs past j = Closed)"
    using ph by auto
  also have "\<dots> = all_have_closed gs past"
    by (auto simp: all_have_closed_def list_all_iff phase_after_def)
  finally show ?thesis .
qed

lemma tracks_start:
  assumes "exit_code st = None" and "servers st \<noteq> []"
    and "list_all (\<lambda>g. httpServers g \<noteq> []) (servers st)"
  shows "tracks (servers st) [] (gracefulShutdown sig st)"
proof -
  have "shutting_down (gracefulShutdown sig st)"
    using assms by (rule shutting_down_start)
  moreover have "map httpServers (servers (gracefulShutdown sig st)) = map httpServers (servers st)"
    using assms(1,2) by (simp add: gracefulShutdown_def shutdown_group_def comp_def)
  moreover have "\<forall>i < length (servers st).
      phase (servers (gracefulShutdown sig st) ! i) = phase_after (servers st) [] i"
    using assms(1,2) by (simp add: gracefulShutdown_def shutdown_group_def phase_after_def)
  ultimately show ?thesis
    by (simp add: tracks_def orderly_def)
qed

lemma exits_when_all_have_closed:
  assumes "exit_code st = None" and "servers st \<noteq> []"
    and "list_all (\<lambda>g. httpServers g \<noteq> []) (servers st)"
    and "deliverable (servers st) [] evs"
  shows "exit_code (run_closes evs (gracefulShutdown sig st))
      = (if all_have_closed (servers st) evs then Some 0 else None)"
    and "exit_code (force_exit (run_closes evs (gracefulShutdown sig st)))
      = (if all_have_closed (servers st) evs then Some 0 else Some 1)"
proof -
  from tracks_run [OF tracks_start [OF assms(1-3)] assms(4), of sig]
  have t: "tracks (servers st) evs (run_closes evs (gracefulShutdown sig st))"
    by simp
  then have sd: "shutting_down (run_closes evs (gracefulShutdown sig st))"
    by (simp add: tracks_def)
  from shutting_down_exit [OF sd] tracks_all_closed [OF t]
  show "exit_code (run_closes evs (gracefulShutdown sig st))
      = (if all_have_closed (servers st) evs then Some 0 else None)"
    and "exit_code (force_exit (run_closes evs (gracefulShutdown sig st)))
      = (if all_have_closed (servers st) evs then Some 0 else Some 1)"
    by simp_all
qed

lemma grace_period_fixed:
  "force_exit_after (gracefulShutdown sig (startup file files))
     = (if exit_code (startup file files) = None then Some 5000 else None)"
  by (auto simp: gracefulShutdown_def startup_def loadConfig_def start_ws_def start_wss_def
      Let_def split: option.splits if_splits)

text \<open>
  Claim C4, as the code has it. Let the process run and serve, with at least one group, each
  group with at least one HTTP server (as \<open>startListeners\<close> gives it) and its registry within
  its client set. After the signal and any sequence of close callbacks, the heartbeat timer
  of every group is stopped and \<open>terminate\<close> was called on every client and so on every
  registered connection of every group. For the callbacks that the runtime can deliver, in
  any order and number, the process has exited with status 0 if the callback of every
  \<open>WebSocket.Server\<close> and of every HTTP server of every group is among them, and has not
  exited otherwise. The timeout set at the signal is the fixed 5000 milliseconds; when it
  fires, it ends a process that has not exited with status 1, whichever callbacks are still
  missing. The same holds with the groups' phases in place of the callbacks, for every
  sequence of callbacks; and after all callbacks, group by group, the process has exited
  with status 0.
\<close>

theorem graceful_shutdown_completes:
  assumes "exit_code st = None" and "servers st \<noteq> []"
    and "list_all (\<lambda>g. httpServers g \<noteq> []) (servers st)"
    and "list_all registry_within_clients (servers st)"
    and "list_all (\<lambda>g. phase g = Serving) (servers st)"
  shows "list_all (\<lambda>g. \<not> timer (hbMgr g)) (servers (run_closes evs (gracefulShutdown sig st)))
    \<and> (\<forall>g \<in> set (servers st). \<forall>s \<in> fst ` set (clientMap (hbMgr g)) \<union> set (wsClients g).
          Terminate s \<in> set (trace (gracefulShutdown sig st)))
    \<and> (deliverable (servers st) [] cbs \<longrightarrow>
          exit_code (run_closes cbs (gracefulShutdown sig st))
            = (if all_have_closed (servers st) cbs then Some 0 else None)
          \<and> exit_code (force_exit (run_closes cbs (gracefulShutdown sig st)))
            = (if all_have_closed (servers st) cbs then Some 0 else Some 1))
    \<and> force_exit_after (run_closes evs (gracefulShutdown sig st)) = Some 5000
    \<and> exit_code (run_closes evs (gracefulShutdown sig st))
        = (if all_closed (run_closes evs (gracefulShutdown sig st)) then Some 0 else None)
    \<and> exit_code (force_exit (run_closes evs (gracefulShutdown sig st)))
        = (if all_closed (run_closes evs (gracefulShutdown sig st)) then Some 0 else Some 1)
    \<and> exit_code (run_closes (all_callbacks (servers st)) (gracefulShutdown sig st)) = Some 0"
proof -
  have sd: "shutting_down (run_closes evs (gracefulShutdown sig st))"
    using assms(1-3) by (intro shutting_down_run shutting_down_start)
  have killed: "Terminate s \<in> set (trace (gracefulShutdown sig st))"
    if "g \<in> set (servers st)" "s \<in> fst ` set (clientMap (hbMgr g)) \<union> set (wsClients g)"
    for g s
  proof -
    from assms(4) that(1) have "fst ` set (clientMap (hbMgr g)) \<subseteq> set (wsClients g)"
      by (simp add: list_all_iff registry_within_clients_def)
    with that(2) have "s \<in> set (wsClients g)" by blast
    with assms(1) that(1) show ?thesis by (rule shutdown_terminates)
  qed
  from sd have "list_all (\<lambda>g. \<not> timer (hbMgr g))
      (servers (run_closes evs (gracefulShutdown sig st)))"
    by (simp add: shutting_down_def closing_timer)
  moreover from sd have "force_exit_after (run_closes evs (gracefulShutdown sig st)) = Some 5000"
    by (simp add: shutting_down_def)
  moreover have "deliverable (servers st) [] cbs \<longrightarrow>
      exit_code (run_closes cbs (gracefulShutdown sig st))
        = (if all_have_closed (servers st) cbs then Some 0 else None)
      \<and> exit_code (force_exit (run_closes cbs (gracefulShutdown sig st)))
        = (if all_have_closed (servers st) cbs then Some 0 else Some 1)"
    using exits_when_all_have_closed [OF assms(1-3), of cbs sig] by blast
  ultimately show ?thesis
    using killed shutting_down_exit [OF sd] all_callbacks_exit_zero(2) [OF assms(1-3)]
    by blast
qed

text \<open>
  The process with two groups, of two and of one HTTP server, and the clients 1 and 2:
  \<open>terminate\<close> is called on client 1; after all five close callbacks the process has exited
  with status 0; with the callback of the second HTTP server of the first group missing it
  has not exited, and the timeout ends it with status 1.
\<close>

theorem graceful_shutdown_completes_witness:
  "exit_code busy_process = None \<and> servers busy_process \<noteq> []
   \<and> list_all (\<lambda>g. httpServers g \<noteq> []) (servers busy_process)
   \<and> list_all registry_within_clients (servers busy_process)
   \<and> list_all (\<lambda>g. phase g = Serving) (servers busy_process)
   \<and> Terminate 1 \<in> set (trace (gracefulShutdown SIGINT busy_process))
   \<and> deliverable (servers busy_process) []
        [WsClosed 1, WsClosed 0, HttpClosed 0, HttpClosed 1, HttpClosed 0]
   \<and> all_have_closed (servers busy_process)
        [WsClosed 1, WsClosed 0, HttpClosed 0, HttpClosed 1, HttpClosed 0]
   \<and> exit_code (run_closes [WsClosed 1, WsClosed 0, HttpClosed 0, HttpClosed 1, HttpClosed 0]
        (gracefulShutdown SIGINT busy_process)) = Some 0
   \<and> deliverable (servers busy_process) [] [WsClosed 1, WsClosed 0, HttpClosed 0, HttpClosed 1]
   \<and> \<not> all_have_closed (servers busy_process)
        [WsClosed 1, WsClosed 0, HttpClosed 0, HttpClosed 1]
   \<and> exit_code (run_closes [WsClosed 1, WsClosed 0, HttpClosed 0, HttpClosed 1]
        (gracefulShutdown SIGINT busy_process)) = None
   \<and> exit_code (force_exit (run_closes [WsClosed 1, WsClosed 0, HttpClosed 0, HttpClosed 1]
        (gracefulShutdown SIGINT busy_process))) = Some 1
   \<and> force_exit_after (run_closes [WsClosed 1, WsClosed 0, HttpClosed 0, HttpClosed 1]
        (gracefulShutdown SIGINT busy_process)) = Some 5000"
proof -
  have h: "exit_code busy_process = None" "servers busy_process \<noteq> []"
    "list_all (\<lambda>g. httpServers g \<noteq> []) (servers busy_process)"
    "list_all registry_within_clients (servers busy_process)"
    "list_all (\<lambda>g. phase g = Serving) (servers busy_process)"
    by (simp_all add: busy_process_eq registry_within_clients_def)
  have a: "deliverable (servers busy_process) []
        [WsClosed 1, WsClosed 0, HttpClosed 0, HttpClosed 1, HttpClosed 0]"
    "all_have_closed (servers busy_process)
        [WsClosed 1, WsClosed 0, HttpClosed 0, HttpClosed 1, HttpClosed 0]"
    by (simp_all add: busy_process_eq all_have_closed_def)
  have b: "deliverable (servers busy_process) []
        [WsClosed 1, WsClosed 0, HttpClosed 0, HttpClosed 1]"
    "\<not> all_have_closed (servers busy_process)
        [WsClosed 1, WsClosed 0, HttpClosed 0, HttpClosed 1]"
    by (simp_all add: busy_process_eq all_have_closed_def)
  have k: "Terminate 1 \<in> set (trace (gracefulShutdown SIGINT busy_process))"
    using graceful_shutdown_completes [OF h, of "[]" SIGINT "[]"]
    by (simp add: busy_process_eq)
  show ?thesis
    using h a b k
      graceful_shutdown_completes [OF h, of "[]" SIGINT
        "[WsClosed 1, WsClosed 0, HttpClosed 0, HttpClosed 1, HttpClosed 0]"]
      graceful_shutdown_completes [OF h,
        of "[WsClosed 1, WsClosed 0, HttpClosed 0, HttpClosed 1]" SIGINT
        "[WsClosed 1, WsClosed 0, HttpClosed 0, HttpClosed 1]"]
    by simp
qed

text \<open>
  Claim C4 as the specification states it fails in the grace period, which it calls
  configurable: whatever the configuration file and the TLS files, a process that has
  started is given the timeout of 5000 milliseconds at the signal. So it is for the
  configuration with the plain protocol alone, also with another heartbeat and another
  payload limit.
\<close>

theorem grace_period_counterexample:
  "(\<forall>file files sig. force_exit_after (gracefulShutdown sig (startup file files))
       = (if exit_code (startup file files) = None then Some 5000 else None))
   \<and> exit_code (startup (Some ws_only) unreadable_key) = None
   \<and> force_exit_after (gracefulShutdown SIGTERM (startup (Some ws_only) unreadable_key))
       = Some 5000
   \<and> force_exit_after (gracefulShutdown SIGTERM
        (startup (Some (ws_only\<lparr>maxPayload := 1,
           heartbeat_cfg := \<lparr>interval = 1000, timeout = 60000\<rparr>\<rparr>)) unreadable_key))
       = Some 5000"
proof -
  have e: "exit_code (startup (Some c) unreadable_key) = None"
    if "ws_enabled c" "\<not> wss_enabled c" "0 < maxPayload c" for c
    using that by (simp add: startup_def loadConfig_def start_ws_def start_wss_def)
  have "exit_code (startup (Some ws_only) unreadable_key) = None"
    by (rule e) (simp_all add: ws_only_def)
  moreover have "exit_code (startup (Some (ws_only\<lparr>maxPayload := 1,
      heartbeat_cfg := \<lparr>interval = 1000, timeout = 60000\<rparr>\<rparr>)) unreadable_key) = None"
    by (rule e) (simp_all add: ws_only_def)
  ultimately show ?thesis
    by (simp add: grace_period_fixed)
qed

end
